theory Spec2Isabelle
  imports Complex_Main "HOL-Library.Multiset"
begin

section \<open>Python values the notebooks rely on\<close>

text \<open>
  The two notebooks are straight-line Python over \<^verbatim>\<open>xarray\<close> datasets. Python integers
  are unbounded, so they are \<^typ>\<open>int\<close>; a length is a \<^typ>\<open>nat\<close>. Every exception
  the modelled calls can raise is a constructor of \<open>error\<close>, and a call that can raise
  returns \<open>error + 'a\<close> with \<open>Inl\<close> for the exception.
\<close>

datatype error =
    ValueError
  | KeyError string
  | IndexError
  | AttributeError string
  | NameError string
  | GroupNotFoundError string

subsection \<open>The built-in \<^verbatim>\<open>range(start, stop, step)\<close>\<close>

text \<open>
  The number of elements follows CPython's \<^verbatim>\<open>compute_range_length\<close>: for a positive
  step it is \<open>(stop - start - 1) div step + 1\<close> when \<open>start < stop\<close> and zero otherwise;
  a negative step counts downwards from \<open>start\<close> to above \<open>stop\<close>. A zero step raises
  \<^verbatim>\<open>ValueError\<close>. Element \<open>k\<close> is \<open>start + k * step\<close>.
\<close>

definition range_length :: "int \<Rightarrow> int \<Rightarrow> int \<Rightarrow> nat" where
  "range_length start stop step =
     (if 0 < step
      then (if start < stop then nat ((stop - start - 1) div step + 1) else 0)
      else (if stop < start then nat ((start - stop - 1) div (- step) + 1) else 0))"

definition py_range :: "int \<Rightarrow> int \<Rightarrow> int \<Rightarrow> error + int list" where
  "py_range start stop step =
     (if step = 0 then Inl ValueError
      else Inr (map (\<lambda>k. start + int k * step) [0..<range_length start stop step]))"

section \<open>The sliding-window batcher\<close>

subsection \<open>Halo and anchors\<close>

text \<open>
  \<^verbatim>\<open>halo_size = int((np.sum(conv_kernels) - len(conv_kernels))/2)\<close>

  \<^verbatim>\<open>np.sum\<close> turns the list of kernel sizes into an array of 64-bit signed integers
  (numpy's default integer, for sizes that fit it) and adds them up in that type, where
  an addition wraps around; the sum less the length is again a 64-bit integer. \<open>int64\<close>
  is the wrap-around. The sum of an empty list is the float zero, for which the rest of
  the computation gives the same as for the integer zero.
\<close>

definition int64 :: "int \<Rightarrow> int" where
  "int64 x = (x + 2 ^ 63) mod 2 ^ 64 - 2 ^ 63"

definition np_sum :: "int list \<Rightarrow> int" where
  "np_sum a = foldl (\<lambda>acc x. int64 (acc + x)) 0 a"

text \<open>
  The division \<^verbatim>\<open>/ 2\<close> is a division of floats: the 64-bit integer is first converted
  to binary64, which has 53 significant bits, so an integer of more bits is rounded
  to the nearest multiple of the power of two that its excess bits span, a tie going to
  the even multiple. \<open>float64\<close> is the value of that float, a rational number. Halving
  a float of this size is exact. \<open>bit_length\<close> is the number of binary digits.
\<close>

fun bit_length :: "nat \<Rightarrow> nat" where
  "bit_length n = (if n = 0 then 0 else Suc (bit_length (n div 2)))"

declare bit_length.simps [simp del]

definition float64 :: "int \<Rightarrow> rat" where
  "float64 d =
     (let a = nat \<bar>d\<bar>;
          s = bit_length a - 53;
          q = a div 2 ^ s;
          r = a mod 2 ^ s;
          q' = (if 2 ^ s < 2 * r \<or> (2 * r = 2 ^ s \<and> odd q) then q + 1 else q)
      in of_int (sgn d * int (q' * 2 ^ s)))"

text \<open>\<^verbatim>\<open>int(x)\<close> of a float cuts the fraction off: it rounds towards zero.\<close>

definition py_int :: "rat \<Rightarrow> int" where
  "py_int x = (if 0 \<le> x then \<lfloor>x\<rfloor> else \<lceil>x\<rceil>)"

definition halo_size :: "int list \<Rightarrow> int" where
  "halo_size conv_kernels =
     py_int (float64 (int64 (np_sum conv_kernels - int (length conv_kernels))) / 2)"

text \<open>
  \<^verbatim>\<open>nlon_range = range(nlons, lonlen, nlons - 2*halo_size)\<close> and
  \<^verbatim>\<open>nlat_range = range(nlats, latlen, nlats - 2*halo_size)\<close>.
\<close>

definition nlon_range :: "int \<Rightarrow> nat \<Rightarrow> int \<Rightarrow> error + int list" where
  "nlon_range nlons lonlen halo = py_range nlons (int lonlen) (nlons - 2 * halo)"

definition nlat_range :: "int \<Rightarrow> nat \<Rightarrow> int \<Rightarrow> error + int list" where
  "nlat_range nlats latlen halo = py_range nlats (int latlen) (nlats - 2 * halo)"


subsection \<open>Datasets\<close>

text \<open>
  A prepared slice is a dataset over the two spatial dimensions \<^verbatim>\<open>nlat\<close> (rows) and
  \<^verbatim>\<open>nlon\<close> (columns): the sizes of the dimensions and, per data variable, a row-major
  array. A cell is \<open>None\<close> where the array holds not-a-number. Every array of a
  dataset has \<open>sizes_nlat\<close> rows of \<open>sizes_nlon\<close> cells; coordinates and attributes,
  which \<^verbatim>\<open>just_the_data\<close> removes before the batcher runs, are not part of the model.

  After the rolling construction the dataset has a patch-index dimension
  \<^verbatim>\<open>input_batch\<close> in front of the two window dimensions (renamed to \<^verbatim>\<open>nlat\<close>,
  \<^verbatim>\<open>nlon\<close>); every variable is then an array \<open>[input_batch][nlat][nlon]\<close>.
\<close>

record 'a dataset =
  sizes_nlat :: nat
  sizes_nlon :: nat
  data_vars :: "(string \<times> 'a option list list) list"

record 'a batch_set =
  sizes_input_batch :: nat
  win_nlat :: nat
  win_nlon :: nat
  batch_vars :: "(string \<times> 'a option list list list) list"

text \<open>
  Positional indexing with a list of integers (\<^verbatim>\<open>isel\<close>, and \<^verbatim>\<open>[{dim: indices}]\<close>):
  an index \<open>i\<close> with \<open>- n \<le> i < n\<close> addresses position \<open>i\<close>, counted from the end when
  negative; any other index raises \<^verbatim>\<open>IndexError\<close>.
\<close>

definition norm_index :: "nat \<Rightarrow> int \<Rightarrow> error + nat" where
  "norm_index n i =
     (if - int n \<le> i \<and> i < int n
      then Inr (nat (if i < 0 then i + int n else i))
      else Inl IndexError)"

fun norm_indices :: "nat \<Rightarrow> int list \<Rightarrow> error + nat list" where
  "norm_indices n [] = Inr []"
| "norm_indices n (i # is) =
     (case norm_index n i of
        Inl e \<Rightarrow> Inl e
      | Inr k \<Rightarrow> (case norm_indices n is of Inl e \<Rightarrow> Inl e | Inr ks \<Rightarrow> Inr (k # ks)))"

subsection \<open>The rolling construction\<close>

text \<open>
  \<^verbatim>\<open>ds.rolling({"nlat": nlats, "nlon": nlons}).construct(...)\<close> attaches to every grid
  point \<open>(i, j)\<close> the window whose last cell is \<open>(i, j)\<close>: window cell \<open>(a, b)\<close> reads
  the grid at \<open>(i - nlats + 1 + a, j - nlons + 1 + b)\<close>, and not-a-number where that
  position lies before the first row or column. A window size that is not positive
  raises \<^verbatim>\<open>ValueError\<close>.
\<close>

definition padded_at :: "'a option list list \<Rightarrow> int \<Rightarrow> int \<Rightarrow> 'a option" where
  "padded_at g r c = (if r < 0 \<or> c < 0 then None else g ! nat r ! nat c)"

definition window_at :: "nat \<Rightarrow> nat \<Rightarrow> 'a option list list \<Rightarrow> nat \<Rightarrow> nat \<Rightarrow> 'a option list list" where
  "window_at nlats nlons g i j =
     map (\<lambda>a. map (\<lambda>b. padded_at g (int i - int nlats + 1 + int a) (int j - int nlons + 1 + int b))
                 [0..<nlons])
         [0..<nlats]"

definition rolling_construct ::
  "nat \<Rightarrow> nat \<Rightarrow> nat \<Rightarrow> nat \<Rightarrow> 'a option list list \<Rightarrow> 'a option list list list list" where
  "rolling_construct latlen lonlen nlats nlons g =
     map (\<lambda>i. map (\<lambda>j. window_at nlats nlons g i j) [0..<lonlen]) [0..<latlen]"

text \<open>
  \<^verbatim>\<open>[{'nlat': nlat_range, 'nlon': nlon_range}]\<close> keeps the windows at the anchor rows and
  anchor columns, and \<^verbatim>\<open>stack({"input_batch": ("nlat", "nlon")})\<close> followed by
  \<^verbatim>\<open>transpose('input_batch', ...)\<close> lays them out along one leading axis, the row
  anchor varying slowest.
\<close>

definition isel_anchors :: "nat list \<Rightarrow> nat list \<Rightarrow> 'b list list \<Rightarrow> 'b list list" where
  "isel_anchors lat_ix lon_ix c = map (\<lambda>i. map (\<lambda>j. c ! i ! j) lon_ix) lat_ix"

definition stack :: "'b list list \<Rightarrow> 'b list" where
  "stack c = concat c"

definition stacked :: "'a dataset \<Rightarrow> nat \<Rightarrow> nat \<Rightarrow> nat list \<Rightarrow> nat list \<Rightarrow> 'a batch_set" where
  "stacked ds nlats nlons lat_ix lon_ix =
     \<lparr> sizes_input_batch = length lat_ix * length lon_ix,
       win_nlat = nlats,
       win_nlon = nlons,
       batch_vars =
         map (\<lambda>(name, g).
                (name, stack (isel_anchors lat_ix lon_ix
                                (rolling_construct (sizes_nlat ds) (sizes_nlon ds) nlats nlons g))))
             (data_vars ds) \<rparr>"

subsection \<open>\<^verbatim>\<open>dropna('input_batch')\<close>\<close>

text \<open>
  For every label of \<^verbatim>\<open>input_batch\<close> xarray adds up, over the data variables, the number
  of cells that are not null, and keeps the label when the total equals the number of
  cells the variables have per label (\<^verbatim>\<open>how='any'\<close>).
\<close>

definition count_notnull :: "'a option list list \<Rightarrow> nat" where
  "count_notnull w = length (filter (\<lambda>v. v \<noteq> None) (concat w))"

definition isel_input_batch_nat :: "'a batch_set \<Rightarrow> nat list \<Rightarrow> 'a batch_set" where
  "isel_input_batch_nat bs ks =
     bs \<lparr> sizes_input_batch := length ks,
          batch_vars := map (\<lambda>(name, ws). (name, map (\<lambda>k. ws ! k) ks)) (batch_vars bs) \<rparr>"

definition dropna_count :: "'a batch_set \<Rightarrow> nat \<Rightarrow> nat" where
  "dropna_count bs k = sum_list (map (\<lambda>(name, ws). count_notnull (ws ! k)) (batch_vars bs))"

definition dropna_size :: "'a batch_set \<Rightarrow> nat" where
  "dropna_size bs = sum_list (map (\<lambda>(name, ws). win_nlat bs * win_nlon bs) (batch_vars bs))"

definition dropna :: "'a batch_set \<Rightarrow> 'a batch_set" where
  "dropna bs =
     isel_input_batch_nat bs
       (filter (\<lambda>k. dropna_count bs k = dropna_size bs) [0..<sizes_input_batch bs])"

subsection \<open>The batch cell\<close>

text \<open>
  The cell that builds \<^verbatim>\<open>batch\<close> (and, with another dataset, \<^verbatim>\<open>batch_test\<close> and
  \<^verbatim>\<open>batch_predict\<close>): the two anchor ranges first, then the chain of dataset methods.
  \<open>candidates\<close> is the chain up to, and without, \<^verbatim>\<open>dropna\<close>.
\<close>

definition candidates :: "'a dataset \<Rightarrow> int \<Rightarrow> int \<Rightarrow> int \<Rightarrow> error + 'a batch_set" where
  "candidates ds nlons nlats halo =
     (case nlon_range nlons (sizes_nlon ds) halo of
        Inl e \<Rightarrow> Inl e
      | Inr lon_anchors \<Rightarrow>
     (case nlat_range nlats (sizes_nlat ds) halo of
        Inl e \<Rightarrow> Inl e
      | Inr lat_anchors \<Rightarrow>
     (if nlats \<le> 0 \<or> nlons \<le> 0 then Inl ValueError
      else
     (case norm_indices (sizes_nlat ds) lat_anchors of
        Inl e \<Rightarrow> Inl e
      | Inr lat_ix \<Rightarrow>
     (case norm_indices (sizes_nlon ds) lon_anchors of
        Inl e \<Rightarrow> Inl e
      | Inr lon_ix \<Rightarrow> Inr (stacked ds (nat nlats) (nat nlons) lat_ix lon_ix))))))"

definition build_batch :: "'a dataset \<Rightarrow> int \<Rightarrow> int \<Rightarrow> int \<Rightarrow> error + 'a batch_set" where
  "build_batch ds nlons nlats halo =
     (case candidates ds nlons nlats halo of Inl e \<Rightarrow> Inl e | Inr c \<Rightarrow> Inr (dropna c))"

subsection \<open>The generator of mini-batches\<close>

text \<open>\<^verbatim>\<open>range(start, stop)\<close>, the step being one.\<close>

definition range2 :: "int \<Rightarrow> int \<Rightarrow> int list" where
  "range2 start stop = map (\<lambda>k. start + int k) [0..<nat (stop - start)]"

definition isel_input_batch :: "'a batch_set \<Rightarrow> int list \<Rightarrow> error + 'a batch_set" where
  "isel_input_batch bs idxs =
     (case norm_indices (sizes_input_batch bs) idxs of
        Inl e \<Rightarrow> Inl e
      | Inr ks \<Rightarrow> Inr (isel_input_batch_nat bs ks))"

text \<open>
  The patches are shuffled before the generator reads them:
  \<^verbatim>\<open>
  rnds = list(range(len(batch['input_batch'])))
  np.random.shuffle(rnds)
  batch = batch[{'input_batch':(rnds)}]
  \<close>
  \<^verbatim>\<open>np.random.shuffle\<close> rearranges the list in place, and which arrangement it leaves
  is the choice of the random generator. The call is therefore a relation between the
  list before and the list after: both hold the same elements, each as often. The third
  line selects the patches at the positions the shuffled list gives, in its order.
\<close>

definition np_random_shuffle :: "int list \<Rightarrow> int list \<Rightarrow> bool" where
  "np_random_shuffle before after \<longleftrightarrow> mset after = mset before"

definition shuffled_batch :: "'a batch_set \<Rightarrow> int list \<Rightarrow> error + 'a batch_set" where
  "shuffled_batch batch rnds = isel_input_batch batch rnds"

text \<open>
  \<^verbatim>\<open>
  def batch_generator(batch_set, batch_size):
      n = 0
      while n < len(batch_set['input_batch']) - batch_size:
          yield batch_set.isel({'input_batch':range(n,(n+batch_size))})
          n += batch_size
  \<close>
  Running the generator to its end gives the list of the mini-batches it yields and
  how it ends: \<open>None\<close> for the normal end of the loop, \<open>Some e\<close> when \<^verbatim>\<open>isel\<close> raises.
  With a batch size that is not positive the loop can go on for ever; a run that does not
  end is \<open>None\<close>.
\<close>

partial_function (option) batch_generator_from ::
  "'a batch_set \<Rightarrow> int \<Rightarrow> int \<Rightarrow> ('a batch_set list \<times> error option) option" where
  "batch_generator_from batch_set batch_size n =
     (if n < int (sizes_input_batch batch_set) - batch_size
      then (case isel_input_batch batch_set (range2 n (n + batch_size)) of
              Inl e \<Rightarrow> Some ([], Some e)
            | Inr b \<Rightarrow>
                Option.bind (batch_generator_from batch_set batch_size (n + batch_size))
                  (\<lambda>(ys, r). Some (b # ys, r)))
      else Some ([], None))"

declare batch_generator_from.simps [code]

definition batch_generator ::
  "'a batch_set \<Rightarrow> int \<Rightarrow> ('a batch_set list \<times> error option) option" where
  "batch_generator batch_set batch_size = batch_generator_from batch_set batch_size 0"

subsection \<open>Scenarios and the tensors handed to the model\<close>

record scenario =
  conv_var :: "string list"
  input_var :: "string list"
  target :: "string list"
  name :: string

text \<open>
  \<^verbatim>\<open>sub = {'nlon':range(halo_size,nlons-halo_size), 'nlat':range(halo_size,nlats-halo_size)}\<close>
\<close>

record sub_stencil =
  sub_nlon :: "int list"
  sub_nlat :: "int list"

definition sub :: "int \<Rightarrow> int \<Rightarrow> int \<Rightarrow> sub_stencil" where
  "sub halo nlons nlats =
     \<lparr> sub_nlon = range2 halo (nlons - halo), sub_nlat = range2 halo (nlats - halo) \<rparr>"

text \<open>
  \<^verbatim>\<open>batch[x]\<close> looks a variable up by name, and \<^verbatim>\<open>batch[x][sub]\<close> then selects the
  stencil's rows and columns of every window.
\<close>

definition getitem :: "'a batch_set \<Rightarrow> string \<Rightarrow> error + 'a option list list list" where
  "getitem bs x = (case map_of (batch_vars bs) x of None \<Rightarrow> Inl (KeyError x) | Some ws \<Rightarrow> Inr ws)"

definition isel_sub ::
  "'a batch_set \<Rightarrow> sub_stencil \<Rightarrow> 'a option list list list \<Rightarrow> error + 'a option list list list" where
  "isel_sub bs s ws =
     (case norm_indices (win_nlon bs) (sub_nlon s) of
        Inl e \<Rightarrow> Inl e
      | Inr cs \<Rightarrow>
     (case norm_indices (win_nlat bs) (sub_nlat s) of
        Inl e \<Rightarrow> Inl e
      | Inr rs \<Rightarrow> Inr (map (\<lambda>w. map (\<lambda>r. map (\<lambda>c. w ! r ! c) cs) rs) ws)))"

text \<open>The list comprehensions \<^verbatim>\<open>[batch[x] for x in names]\<close> and \<^verbatim>\<open>[batch[x][sub] for x in names]\<close>.\<close>

fun getitems :: "'a batch_set \<Rightarrow> string list \<Rightarrow> error + (string \<times> 'a option list list list) list" where
  "getitems bs [] = Inr []"
| "getitems bs (x # xs) =
     (case getitem bs x of
        Inl e \<Rightarrow> Inl e
      | Inr ws \<Rightarrow> (case getitems bs xs of Inl e \<Rightarrow> Inl e | Inr r \<Rightarrow> Inr ((x, ws) # r)))"

fun getitems_sub ::
  "'a batch_set \<Rightarrow> sub_stencil \<Rightarrow> string list \<Rightarrow> error + (string \<times> 'a option list list list) list" where
  "getitems_sub bs s [] = Inr []"
| "getitems_sub bs s (x # xs) =
     (case getitem bs x of
        Inl e \<Rightarrow> Inl e
      | Inr ws \<Rightarrow>
     (case isel_sub bs s ws of
        Inl e \<Rightarrow> Inl e
      | Inr ws' \<Rightarrow> (case getitems_sub bs s xs of Inl e \<Rightarrow> Inl e | Inr r \<Rightarrow> Inr ((x, ws') # r))))"

text \<open>
  \<^verbatim>\<open>xr.merge(arrays).to_array('var').transpose(...,'var')\<close>: the merge keeps one variable
  per name, in the order of first appearance; \<^verbatim>\<open>to_array\<close> stacks the variables along a
  new axis \<^verbatim>\<open>var\<close>, which raises \<^verbatim>\<open>IndexError\<close> when there is none to stack; the transpose
  moves that axis last. The result is indexed \<open>[input_batch][nlat][nlon][var]\<close>.
\<close>

fun merge :: "(string \<times> 'b) list \<Rightarrow> (string \<times> 'b) list" where
  "merge [] = []"
| "merge (p # ps) = p # merge (filter (\<lambda>q. fst q \<noteq> fst p) ps)"

definition to_array ::
  "nat \<Rightarrow> nat \<Rightarrow> nat \<Rightarrow> (string \<times> 'a option list list list) list \<Rightarrow>
   error + 'a option list list list list" where
  "to_array n rows cols arrays =
     (if merge arrays = [] then Inl IndexError
      else Inr (map (\<lambda>s. map (\<lambda>r. map (\<lambda>c. map (\<lambda>(x, a). a ! s ! r ! c) (merge arrays))
                                      [0..<cols])
                            [0..<rows])
                    [0..<n]))"

text \<open>
  The body of the training loop before \<^verbatim>\<open>model.fit\<close>, which is also the cell that
  builds \<^verbatim>\<open>test_conv\<close>, \<^verbatim>\<open>test_input\<close> and \<^verbatim>\<open>test_target\<close>: the three list
  comprehensions first, then the three merges.
\<close>

definition conv_tensor ::
  "'a batch_set \<Rightarrow> (string \<times> 'a option list list list) list \<Rightarrow> error + 'a option list list list list" where
  "conv_tensor bs arrays = to_array (sizes_input_batch bs) (win_nlat bs) (win_nlon bs) arrays"

definition sub_tensor ::
  "'a batch_set \<Rightarrow> sub_stencil \<Rightarrow> (string \<times> 'a option list list list) list \<Rightarrow>
   error + 'a option list list list list" where
  "sub_tensor bs s arrays =
     to_array (sizes_input_batch bs) (length (sub_nlat s)) (length (sub_nlon s)) arrays"

record 'a tensors =
  t_conv :: "'a option list list list list"
  t_input :: "'a option list list list list"
  t_target :: "'a option list list list list"

definition batch_tensors :: "'a batch_set \<Rightarrow> scenario \<Rightarrow> sub_stencil \<Rightarrow> error + 'a tensors" where
  "batch_tensors bs sc s =
     (case getitems bs (conv_var sc) of Inl e \<Rightarrow> Inl e | Inr cs \<Rightarrow>
     (case getitems_sub bs s (input_var sc) of Inl e \<Rightarrow> Inl e | Inr is \<Rightarrow>
     (case getitems_sub bs s (target sc) of Inl e \<Rightarrow> Inl e | Inr ts \<Rightarrow>
     (case conv_tensor bs cs of Inl e \<Rightarrow> Inl e | Inr c \<Rightarrow>
     (case sub_tensor bs s is of Inl e \<Rightarrow> Inl e | Inr i \<Rightarrow>
     (case sub_tensor bs s ts of Inl e \<Rightarrow> Inl e | Inr t \<Rightarrow>
        Inr \<lparr> t_conv = c, t_input = i, t_target = t \<rparr>))))))"

subsection \<open>The test and prediction cells\<close>

text \<open>
  The notebook keeps its values in global variables that later cells read. The
  record holds the ones the test and prediction cells use; a variable that no cell
  has assigned yet is \<open>None\<close>, and reading it raises \<^verbatim>\<open>NameError\<close>.
\<close>

record 'a notebook =
  nb_sc :: scenario
  nb_nlons :: int
  nb_nlats :: int
  nb_halo_size :: int
  nb_sub :: sub_stencil
  nb_batch_test :: "'a batch_set option"
  nb_batch_predict :: "'a batch_set option"
  nb_test_conv :: "'a option list list list list option"
  nb_test_input :: "'a option list list list list option"
  nb_test_target :: "'a option list list list list option"
  nb_predict_conv :: "'a option list list list list option"
  nb_predict_input :: "'a option list list list list option"

text \<open>The cell \<^verbatim>\<open>batch_test = (ds_test.rolling(...) ... .dropna('input_batch'))\<close>.\<close>

definition cell_batch_test :: "'a dataset \<Rightarrow> 'a notebook \<Rightarrow> error + 'a notebook" where
  "cell_batch_test ds_test nb =
     (case build_batch ds_test (nb_nlons nb) (nb_nlats nb) (nb_halo_size nb) of
        Inl e \<Rightarrow> Inl e
      | Inr b \<Rightarrow> Inr (nb \<lparr> nb_batch_test := Some b \<rparr>))"

text \<open>
  \<^verbatim>\<open>
  test_conv   = [batch_test[x]      for x in sc.conv_var]
  test_input  = [batch_test[x][sub] for x in sc.input_var]
  test_target = [batch_test[x][sub] for x in sc.target]
  test_conv   = xr.merge(test_conv  ).to_array('var').transpose(...,'var')
  test_input  = xr.merge(test_input ).to_array('var').transpose(...,'var')
  test_target = xr.merge(test_target).to_array('var').transpose(...,'var')
  \<close>
\<close>

definition cell_test_tensors :: "'a notebook \<Rightarrow> error + 'a notebook" where
  "cell_test_tensors nb =
     (case nb_batch_test nb of
        None \<Rightarrow> Inl (NameError ''batch_test'')
      | Some batch_test \<Rightarrow>
     (case batch_tensors batch_test (nb_sc nb) (nb_sub nb) of
        Inl e \<Rightarrow> Inl e
      | Inr t \<Rightarrow>
          Inr (nb \<lparr> nb_test_conv := Some (t_conv t),
                    nb_test_input := Some (t_input t),
                    nb_test_target := Some (t_target t) \<rparr>)))"

text \<open>The cell \<^verbatim>\<open>batch_predict = (ds_predict.rolling(...) ... .dropna('input_batch'))\<close>.\<close>

definition cell_batch_predict :: "'a dataset \<Rightarrow> 'a notebook \<Rightarrow> error + 'a notebook" where
  "cell_batch_predict ds_predict nb =
     (case build_batch ds_predict (nb_nlons nb) (nb_nlats nb) (nb_halo_size nb) of
        Inl e \<Rightarrow> Inl e
      | Inr b \<Rightarrow> Inr (nb \<lparr> nb_batch_predict := Some b \<rparr>))"

text \<open>
  \<^verbatim>\<open>
  predict_conv  = [batch_test[x]      for x in sc.conv_var]
  predict_input = [batch_test[x][sub] for x in sc.input_var]
  predict_conv  = xr.merge(predict_conv ).to_array('var').transpose(...,'var')
  predict_input = xr.merge(predict_input).to_array('var').transpose(...,'var')
  \<close>
\<close>

definition cell_predict_inputs :: "'a notebook \<Rightarrow> error + 'a notebook" where
  "cell_predict_inputs nb =
     (case nb_batch_test nb of
        None \<Rightarrow> Inl (NameError ''batch_test'')
      | Some batch_test \<Rightarrow>
     (case getitems batch_test (conv_var (nb_sc nb)) of Inl e \<Rightarrow> Inl e | Inr cs \<Rightarrow>
     (case getitems_sub batch_test (nb_sub nb) (input_var (nb_sc nb)) of Inl e \<Rightarrow> Inl e | Inr is \<Rightarrow>
     (case conv_tensor batch_test cs of Inl e \<Rightarrow> Inl e | Inr c \<Rightarrow>
     (case sub_tensor batch_test (nb_sub nb) is of Inl e \<Rightarrow> Inl e | Inr i \<Rightarrow>
        Inr (nb \<lparr> nb_predict_conv := Some c, nb_predict_input := Some i \<rparr>))))))"

subsection \<open>Cropping and reassembly\<close>






subsection \<open>Notions used to state the properties\<close>

text \<open>Patch \<open>k\<close> of a patch collection holds not-a-number in some cell of some variable.\<close>

definition patch_has_nan :: "'a batch_set \<Rightarrow> nat \<Rightarrow> bool" where
  "patch_has_nan bs k = (\<exists>(x, ws) \<in> set (batch_vars bs). \<exists>row \<in> set (ws ! k). None \<in> set row)"

text \<open>The names of a list in the order of their first appearance.\<close>

fun declared_order :: "string list \<Rightarrow> string list" where
  "declared_order [] = []"
| "declared_order (x # xs) = x # declared_order (filter (\<lambda>y. y \<noteq> x) xs)"

text \<open>
  A patch collection is well shaped when every variable has one window per patch and
  every window has the collection's window shape.
\<close>

definition well_shaped :: "'a batch_set \<Rightarrow> bool" where
  "well_shaped bs =
     (\<forall>(x, ws) \<in> set (batch_vars bs).
        length ws = sizes_input_batch bs \<and>
        (\<forall>w \<in> set ws. length w = win_nlat bs \<and> (\<forall>row \<in> set w. length row = win_nlon bs)))"

text \<open>
  A tensor \<open>[sample][row][column][channel]\<close> has the shape \<open>n \<times> rows \<times> cols \<times> channels\<close>.
\<close>

definition has_shape :: "'b list list list list \<Rightarrow> nat \<Rightarrow> nat \<Rightarrow> nat \<Rightarrow> nat \<Rightarrow> bool" where
  "has_shape T n rows cols channels =
     (length T = n \<and>
      list_all (\<lambda>S. length S = rows \<and>
                    list_all (\<lambda>R. length R = cols \<and> list_all (\<lambda>v. length v = channels) R) S) T)"

subsection \<open>A small dataset for worked instances\<close>

text \<open>
  Five rows and four columns, two variables. With a \<open>3 \<times> 3\<close> window and a halo of
  one the row anchors are \<open>3\<close> and \<open>4\<close> and the only column anchor is \<open>3\<close>.
\<close>

definition example_ds :: "nat dataset" where
  "example_ds =
     \<lparr> sizes_nlat = 5, sizes_nlon = 4,
       data_vars =
         [(''SSH'', [[Some 0, Some 1, Some 2, Some 3],
                    [Some 10, Some 11, Some 12, Some 13],
                    [Some 20, Some 21, Some 22, Some 23],
                    [Some 30, Some 31, Some 32, Some 33],
                    [Some 40, Some 41, Some 42, Some 43]]),
          (''U'', [[Some 100, Some 101, Some 102, Some 103],
                  [Some 110, Some 111, Some 112, Some 113],
                  [Some 120, Some 121, Some 122, Some 123],
                  [Some 130, Some 131, Some 132, Some 133],
                  [Some 140, Some 141, Some 142, Some 143]])] \<rparr>"

definition example_sc :: scenario where
  "example_sc = \<lparr> conv_var = [''SSH''], input_var = [''U'', ''SSH''], target = [''U''],
                   name = ''example'' \<rparr>"

definition example_batch :: "nat batch_set" where
  "example_batch =
     \<lparr> sizes_input_batch = 2, win_nlat = 3, win_nlon = 3,
       batch_vars =
         [(''SSH'',
           [[[Some 11, Some 12, Some 13], [Some 21, Some 22, Some 23], [Some 31, Some 32, Some 33]],
            [[Some 21, Some 22, Some 23], [Some 31, Some 32, Some 33], [Some 41, Some 42, Some 43]]]),
          (''U'',
           [[[Some 111, Some 112, Some 113], [Some 121, Some 122, Some 123],
             [Some 131, Some 132, Some 133]],
            [[Some 121, Some 122, Some 123], [Some 131, Some 132, Some 133],
             [Some 141, Some 142, Some 143]]])] \<rparr>"

text \<open>
  The two patches in the order \<open>[1, 0]\<close>, one outcome of the shuffle, and the
  mini-batch of one patch that the generator yields from them.
\<close>

definition example_shuffled :: "nat batch_set" where
  "example_shuffled =
     \<lparr> sizes_input_batch = 2, win_nlat = 3, win_nlon = 3,
       batch_vars =
         [(''SSH'',
           [[[Some 21, Some 22, Some 23], [Some 31, Some 32, Some 33], [Some 41, Some 42, Some 43]],
            [[Some 11, Some 12, Some 13], [Some 21, Some 22, Some 23], [Some 31, Some 32, Some 33]]]),
          (''U'',
           [[[Some 121, Some 122, Some 123], [Some 131, Some 132, Some 133],
             [Some 141, Some 142, Some 143]],
            [[Some 111, Some 112, Some 113], [Some 121, Some 122, Some 123],
             [Some 131, Some 132, Some 133]]])] \<rparr>"

definition example_minibatch :: "nat batch_set" where
  "example_minibatch =
     \<lparr> sizes_input_batch = 1, win_nlat = 3, win_nlon = 3,
       batch_vars =
         [(''SSH'',
           [[[Some 21, Some 22, Some 23], [Some 31, Some 32, Some 33], [Some 41, Some 42, Some 43]]]),
          (''U'',
           [[[Some 121, Some 122, Some 123], [Some 131, Some 132, Some 133],
             [Some 141, Some 142, Some 143]]])] \<rparr>"

definition example_tensors :: "nat tensors" where
  "example_tensors =
     \<lparr> t_conv = [[[[Some 21], [Some 22], [Some 23]],
                  [[Some 31], [Some 32], [Some 33]],
                  [[Some 41], [Some 42], [Some 43]]]],
       t_input = [[[[Some 132, Some 32]]]],
       t_target = [[[[Some 132]]]] \<rparr>"

text \<open>
  A notebook state in which \<^verbatim>\<open>batch_test\<close> holds the two patches of the small dataset,
  and a second dataset, with other values, to stand for the prediction slice.
\<close>

definition example_nb :: "nat notebook" where
  "example_nb =
     \<lparr> nb_sc = example_sc, nb_nlons = 3, nb_nlats = 3, nb_halo_size = 1, nb_sub = sub 1 3 3,
       nb_batch_test = Some example_batch, nb_batch_predict = None,
       nb_test_conv = None, nb_test_input = None, nb_test_target = None,
       nb_predict_conv = None, nb_predict_input = None \<rparr>"

definition example_ds_predict :: "nat dataset" where
  "example_ds_predict =
     \<lparr> sizes_nlat = 4, sizes_nlon = 4,
       data_vars =
         [(''SSH'', [[Some 7, Some 7, Some 7, Some 7],
                    [Some 7, Some 7, Some 7, Some 7],
                    [Some 7, Some 7, Some 7, Some 7],
                    [Some 7, Some 7, Some 7, Some 7]]),
          (''U'', [[Some 9, Some 9, Some 9, Some 9],
                  [Some 9, Some 9, Some 9, Some 9],
                  [Some 9, Some 9, Some 9, Some 9],
                  [Some 9, Some 9, Some 9, Some 9]])] \<rparr>"

section \<open>The preparation notebook\<close>

subsection \<open>Fields and numeric kernels\<close>

text \<open>
  The remote dataset holds, by name, fields on the grid \<open>[nlat][nlon]\<close> and fields
  with a leading time axis \<open>[time][nlat][nlon]\<close>. The cells are floating-point numbers;
  their type and the numeric kernels of \<^verbatim>\<open>numpy\<close> that the notebook calls are
  parameters of the model: the sine and cosine, the conversion from degrees, mean and
  standard deviation over all cells of an array, the arithmetic on cells, the
  not-a-number test, and the cell that stands for a truth value of a boolean array.
\<close>

datatype 'v field = Static "'v list list" | Timed "'v list list list"

record 'v numerics =
  np_sin :: "'v \<Rightarrow> 'v"
  np_cos :: "'v \<Rightarrow> 'v"
  np_radians :: "'v \<Rightarrow> 'v"
  np_mean :: "'v list \<Rightarrow> 'v"
  np_std :: "'v list \<Rightarrow> 'v"
  f_mul :: "'v \<Rightarrow> 'v \<Rightarrow> 'v"
  f_sub :: "'v \<Rightarrow> 'v \<Rightarrow> 'v"
  f_div :: "'v \<Rightarrow> 'v \<Rightarrow> 'v"
  f_neg :: "'v \<Rightarrow> 'v"
  np_isnan :: "'v \<Rightarrow> bool"
  from_bool :: "bool \<Rightarrow> 'v"

text \<open>The cells of a field in storage order, and its shape (the field with every cell blanked).\<close>

fun cells :: "'v field \<Rightarrow> 'v list" where
  "cells (Static g) = concat g"
| "cells (Timed gs) = concat (concat gs)"

definition shape_of :: "'v field \<Rightarrow> unit field" where
  "shape_of a = map_field (\<lambda>v. ()) a"

text \<open>
  A binary operation cell by cell. The notebook only combines fields of one shape;
  operands of different shapes raise \<^verbatim>\<open>ValueError\<close>, from the operation itself or from the
  assignment of its result under the dimensions of another field.
\<close>

fun zip_field :: "('v \<Rightarrow> 'v \<Rightarrow> 'v) \<Rightarrow> 'v field \<Rightarrow> 'v field \<Rightarrow> error + 'v field" where
  "zip_field f (Static a) (Static b) =
     (if shape_of (Static a) = shape_of (Static b)
      then Inr (Static (map2 (map2 f) a b)) else Inl ValueError)"
| "zip_field f (Timed a) (Timed b) =
     (if shape_of (Timed a) = shape_of (Timed b)
      then Inr (Timed (map2 (map2 (map2 f)) a b)) else Inl ValueError)"
| "zip_field f a b = Inl ValueError"

text \<open>
  A dataset is a dictionary from names to fields, kept in insertion order.
  \<^verbatim>\<open>ds[name] = value\<close> replaces the value of a name that is present and appends a new
  name.
\<close>

fun setitem :: "string \<Rightarrow> 'b \<Rightarrow> (string \<times> 'b) list \<Rightarrow> (string \<times> 'b) list" where
  "setitem k v [] = [(k, v)]"
| "setitem k v (p # ps) = (if fst p = k then (k, v) # ps else p # setitem k v ps)"

text \<open>
  \<^verbatim>\<open>ds[name] = ds.XU.dims, data\<close> stores \<open>data\<close> under the dimensions of \<^verbatim>\<open>XU\<close>, which
  raises \<^verbatim>\<open>ValueError\<close> unless \<open>data\<close> has the shape of \<^verbatim>\<open>XU\<close>.
\<close>

definition assign_like ::
  "'v field \<Rightarrow> string \<Rightarrow> 'v field \<Rightarrow> (string \<times> 'v field) list \<Rightarrow> error + (string \<times> 'v field) list" where
  "assign_like xu k x ds =
     (if shape_of x = shape_of xu then Inr (setitem k x ds) else Inl ValueError)"

subsection \<open>\<^verbatim>\<open>add_grid\<close>\<close>

text \<open>
  \<^verbatim>\<open>
  def add_grid(ds):
      X = lambda lat: np.sin(np.radians(lat))
      Y = lambda lat, lon:  np.cos(np.radians(lat)) * np.sin(np.radians(lon))
      Z = lambda lat, lon: -np.cos(np.radians(lat)) * np.cos(np.radians(lon))
      delta = lambda dx, dxMean, dxStd: (dx - dxMean)/dxStd
      lats = ds.YU.data
      lons = ds.XU.data
      DX = ds.DXT.data
      DY = ds.DYT.data
      x = X(lats)
      y = Y(lats, lons)
      z = Z(lats, lons)
      dX = delta(DX, np.mean(DX), np.std(DX))
      dY = delta(DY, np.mean(DY), np.std(DY))
      ds['X']  = ds.XU.dims, x
      ds['Y']  = ds.XU.dims, y
      ds['Z']  = ds.XU.dims, z
      ds['dx'] = ds.XU.dims, dX
      ds['dy'] = ds.XU.dims, dY
      return(ds)
  \<close>
  An attribute that names no field raises \<^verbatim>\<open>AttributeError\<close>.
\<close>

definition X :: "'v numerics \<Rightarrow> 'v \<Rightarrow> 'v" where
  "X num lat = np_sin num (np_radians num lat)"

definition Y :: "'v numerics \<Rightarrow> 'v \<Rightarrow> 'v \<Rightarrow> 'v" where
  "Y num lat lon = f_mul num (np_cos num (np_radians num lat)) (np_sin num (np_radians num lon))"

definition Z :: "'v numerics \<Rightarrow> 'v \<Rightarrow> 'v \<Rightarrow> 'v" where
  "Z num lat lon =
     f_mul num (f_neg num (np_cos num (np_radians num lat))) (np_cos num (np_radians num lon))"

definition delta :: "'v numerics \<Rightarrow> 'v \<Rightarrow> 'v \<Rightarrow> 'v \<Rightarrow> 'v" where
  "delta num dx dxMean dxStd = f_div num (f_sub num dx dxMean) dxStd"

definition getattr :: "(string \<times> 'b) list \<Rightarrow> string \<Rightarrow> error + 'b" where
  "getattr ds k = (case map_of ds k of None \<Rightarrow> Inl (AttributeError k) | Some a \<Rightarrow> Inr a)"

definition add_grid ::
  "'v numerics \<Rightarrow> (string \<times> 'v field) list \<Rightarrow> error + (string \<times> 'v field) list" where
  "add_grid num ds =
     (case getattr ds ''YU'' of Inl e \<Rightarrow> Inl e | Inr lats \<Rightarrow>
     (case getattr ds ''XU'' of Inl e \<Rightarrow> Inl e | Inr lons \<Rightarrow>
     (case getattr ds ''DXT'' of Inl e \<Rightarrow> Inl e | Inr DX \<Rightarrow>
     (case getattr ds ''DYT'' of Inl e \<Rightarrow> Inl e | Inr DY \<Rightarrow>
     (let x = map_field (X num) lats in
     (case zip_field (Y num) lats lons of Inl e \<Rightarrow> Inl e | Inr y \<Rightarrow>
     (case zip_field (Z num) lats lons of Inl e \<Rightarrow> Inl e | Inr z \<Rightarrow>
     (let dX = map_field (\<lambda>dx. delta num dx (np_mean num (cells DX)) (np_std num (cells DX))) DX;
          dY = map_field (\<lambda>dy. delta num dy (np_mean num (cells DY)) (np_std num (cells DY))) DY
      in
     (case assign_like lons ''X'' x ds of Inl e \<Rightarrow> Inl e | Inr ds1 \<Rightarrow>
     (case assign_like lons ''Y'' y ds1 of Inl e \<Rightarrow> Inl e | Inr ds2 \<Rightarrow>
     (case assign_like lons ''Z'' z ds2 of Inl e \<Rightarrow> Inl e | Inr ds3 \<Rightarrow>
     (case assign_like lons ''dx'' dX ds3 of Inl e \<Rightarrow> Inl e | Inr ds4 \<Rightarrow>
      assign_like lons ''dy'' dY ds4))))))))))))"

subsection \<open>\<^verbatim>\<open>prepare_data\<close> and the loaders\<close>

text \<open>
  \<^verbatim>\<open>ds.rename({...})\<close> raises \<^verbatim>\<open>ValueError\<close> when a name to be renamed is not in the
  dataset, and when two variables end up under one name.
\<close>

definition rename_key :: "(string \<times> string) list \<Rightarrow> string \<Rightarrow> string" where
  "rename_key name_dict k = (case map_of name_dict k of None \<Rightarrow> k | Some k' \<Rightarrow> k')"

definition rename :: "(string \<times> string) list \<Rightarrow> (string \<times> 'b) list \<Rightarrow> error + (string \<times> 'b) list" where
  "rename name_dict ds =
     (if list_ex (\<lambda>k. k \<notin> set (map fst ds)) (map fst name_dict) then Inl ValueError
      else if distinct (map (\<lambda>p. rename_key name_dict (fst p)) ds)
      then Inr (map (\<lambda>p. (rename_key name_dict (fst p), snd p)) ds)
      else Inl ValueError)"

text \<open>
  Selecting one index of the time axis. On an array (\<^verbatim>\<open>array[{'time': t}]\<close>) a missing
  time axis raises \<^verbatim>\<open>ValueError\<close> and an index out of range raises \<^verbatim>\<open>IndexError\<close>. On a
  dataset (\<^verbatim>\<open>ds.isel(time = t)\<close>) the fields without a time axis are kept as they are,
  and \<^verbatim>\<open>ValueError\<close> is raised when no field has a time axis.
\<close>

definition isel_time_array :: "int \<Rightarrow> 'b field \<Rightarrow> error + 'b field" where
  "isel_time_array t a =
     (case a of
        Static g \<Rightarrow> Inl ValueError
      | Timed gs \<Rightarrow>
          (case norm_index (length gs) t of Inl e \<Rightarrow> Inl e | Inr k \<Rightarrow> Inr (Static (gs ! k))))"

fun isel_time_fields :: "int \<Rightarrow> (string \<times> 'b field) list \<Rightarrow> error + (string \<times> 'b field) list" where
  "isel_time_fields t [] = Inr []"
| "isel_time_fields t ((k, Static g) # ps) =
     (case isel_time_fields t ps of Inl e \<Rightarrow> Inl e | Inr r \<Rightarrow> Inr ((k, Static g) # r))"
| "isel_time_fields t ((k, Timed gs) # ps) =
     (case isel_time_array t (Timed gs) of
        Inl e \<Rightarrow> Inl e
      | Inr a \<Rightarrow> (case isel_time_fields t ps of Inl e \<Rightarrow> Inl e | Inr r \<Rightarrow> Inr ((k, a) # r)))"

definition has_time :: "'b field \<Rightarrow> bool" where
  "has_time a = (case a of Static g \<Rightarrow> False | Timed gs \<Rightarrow> True)"

definition isel_time :: "int \<Rightarrow> (string \<times> 'b field) list \<Rightarrow> error + (string \<times> 'b field) list" where
  "isel_time t ds =
     (if list_ex (\<lambda>p. has_time (snd p)) ds then isel_time_fields t ds else Inl ValueError)"

text \<open>
  \<^verbatim>\<open>ds[varList]\<close> copies the listed variables into a new dataset, in the order of the
  list; a name that is not in the dataset raises \<^verbatim>\<open>KeyError\<close>.
\<close>

fun copy_listed ::
  "(string \<times> 'b) list \<Rightarrow> (string \<times> 'b) list \<Rightarrow> string list \<Rightarrow> error + (string \<times> 'b) list" where
  "copy_listed ds acc [] = Inr acc"
| "copy_listed ds acc (k # ks) =
     (case map_of ds k of
        None \<Rightarrow> Inl (KeyError k)
      | Some a \<Rightarrow> copy_listed ds (setitem k a acc) ks)"

text \<open>
  \<^verbatim>\<open>
  def get_mask_from(ds, x):
      return ~np.isnan(ds[x])
  mask1 = get_mask_from(ds, 'SSH')[{'time':mask_time}]
  \<close>
\<close>

definition get_mask_from :: "'v numerics \<Rightarrow> (string \<times> 'v field) list \<Rightarrow> string \<Rightarrow> error + bool field" where
  "get_mask_from num ds x =
     (case map_of ds x of
        None \<Rightarrow> Inl (KeyError x)
      | Some a \<Rightarrow> Inr (map_field (\<lambda>v. \<not> np_isnan num v) a))"

definition mask_at ::
  "'v numerics \<Rightarrow> (string \<times> 'v field) list \<Rightarrow> string \<Rightarrow> int \<Rightarrow> error + bool field" where
  "mask_at num ds x mask_time =
     (case get_mask_from num ds x of Inl e \<Rightarrow> Inl e | Inr m \<Rightarrow> isel_time_array mask_time m)"

text \<open>
  The store \<^verbatim>\<open>scenarios/\<close> maps a group name to the dataset written under it;
  \<^verbatim>\<open>to_zarr(..., mode = 'w')\<close> replaces the group. \<open>remote\<close> is what opening the catalog
  entry gives: a dataset, or the error of a failed download.

  \<^verbatim>\<open>prepare_data\<close> returns nothing; its effect is the new store, paired here with the
  exception that ended the call, if any. Groups written before the exception stay
  written. The time indices are single integers, as in the notebook's call
  \<^verbatim>\<open>prepare_data(sc5, 200, 1000, 1000, 200)\<close>; a caller that leaves \<^verbatim>\<open>mask_time\<close> out
  passes 11. Every name of the dataset stands for a data variable.
\<close>

definition prepare_data ::
  "'v numerics \<Rightarrow> error + (string \<times> 'v field) list \<Rightarrow> scenario \<Rightarrow> int \<Rightarrow> int \<Rightarrow> int \<Rightarrow> int \<Rightarrow>
   (string \<rightharpoonup> (string \<times> 'v field) list) \<Rightarrow>
   (string \<rightharpoonup> (string \<times> 'v field) list) \<times> error option" where
  "prepare_data num remote sc training_time test_time predict_time mask_time store =
     (case remote of Inl e \<Rightarrow> (store, Some e) | Inr ds0 \<Rightarrow>
     (case rename [(''U1_1'', ''U''), (''V1_1'', ''V''), (''TAUX_2'', ''TAUX''),
                   (''TAUY_2'', ''TAUY''), (''SSH_2'', ''SSH''), (''ULONG'', ''XU''),
                   (''ULAT'', ''YU'')] ds0 of
        Inl e \<Rightarrow> (store, Some e) | Inr ds1 \<Rightarrow>
     (case add_grid num ds1 of Inl e \<Rightarrow> (store, Some e) | Inr ds2 \<Rightarrow>
     (case mask_at num ds2 ''SSH'' mask_time of Inl e \<Rightarrow> (store, Some e) | Inr mask1 \<Rightarrow>
     (case mask_at num ds2 ''TAUY'' mask_time of Inl e \<Rightarrow> (store, Some e) | Inr mask2 \<Rightarrow>
     (case mask_at num ds2 ''U'' mask_time of Inl e \<Rightarrow> (store, Some e) | Inr mask3 \<Rightarrow>
     (case zip_field (\<and>) mask1 mask2 of Inl e \<Rightarrow> (store, Some e) | Inr mask12 \<Rightarrow>
     (case zip_field (\<and>) mask12 mask3 of Inl e \<Rightarrow> (store, Some e) | Inr mask_all \<Rightarrow>
     (case copy_listed ds2 [] (conv_var sc @ input_var sc @ target sc) of
        Inl e \<Rightarrow> (store, Some e) | Inr ds3 \<Rightarrow>
     (let ds4 = setitem ''mask'' (map_field (from_bool num) mask_all) ds3 in
     (case isel_time training_time ds4 of Inl e \<Rightarrow> (store, Some e) | Inr ds_training \<Rightarrow>
     (let store1 = store (''training_'' @ name sc @ ''.zarr'' \<mapsto> ds_training) in
     (case isel_time test_time ds4 of Inl e \<Rightarrow> (store1, Some e) | Inr ds_test \<Rightarrow>
     (let store2 = store1 (''test_'' @ name sc @ ''.zarr'' \<mapsto> ds_test) in
     (case isel_time predict_time ds4 of Inl e \<Rightarrow> (store2, Some e) | Inr ds_predict \<Rightarrow>
        (store2 (''predict_'' @ name sc @ ''.zarr'' \<mapsto> ds_predict), None))))))))))))))))"

text \<open>
  \<^verbatim>\<open>
  def loader(sc, name):
      ds = xr.open_zarr('scenarios/', group = name + '_' + sc.name + '.zarr')
      return ds
  \<close>
\<close>

definition loader ::
  "(string \<rightharpoonup> (string \<times> 'v field) list) \<Rightarrow> scenario \<Rightarrow> string \<Rightarrow>
   error + (string \<times> 'v field) list" where
  "loader store sc nm =
     (case store (nm @ ''_'' @ name sc @ ''.zarr'') of
        None \<Rightarrow> Inl (GroupNotFoundError (nm @ ''_'' @ name sc @ ''.zarr''))
      | Some ds \<Rightarrow> Inr ds)"

definition load_training_data ::
  "(string \<rightharpoonup> (string \<times> 'v field) list) \<Rightarrow> scenario \<Rightarrow> error + (string \<times> 'v field) list" where
  "load_training_data store sc = loader store sc ''training''"

definition load_test_data ::
  "(string \<rightharpoonup> (string \<times> 'v field) list) \<Rightarrow> scenario \<Rightarrow> error + (string \<times> 'v field) list" where
  "load_test_data store sc = loader store sc ''test''"

definition load_predict_data ::
  "(string \<rightharpoonup> (string \<times> 'v field) list) \<Rightarrow> scenario \<Rightarrow> error + (string \<times> 'v field) list" where
  "load_predict_data store sc = loader store sc ''predict''"

subsection \<open>Numeric kernels over the reals, for worked instances\<close>

text \<open>
  The kernels read over the real numbers, where no cell is not-a-number: the mean is
  the sum over the number of cells, the standard deviation the root of the mean squared
  deviation.
\<close>

definition example_numerics :: "real numerics" where
  "example_numerics =
     \<lparr> np_sin = sin, np_cos = cos, np_radians = (\<lambda>d. d * pi / 180),
       np_mean = (\<lambda>xs. sum_list xs / real (length xs)),
       np_std = (\<lambda>xs. sqrt (sum_list (map (\<lambda>x. (x - sum_list xs / real (length xs))\<^sup>2) xs)
                              / real (length xs))),
       f_mul = (*), f_sub = (-), f_div = (/), f_neg = uminus,
       np_isnan = (\<lambda>x. False), from_bool = of_bool \<rparr>"

definition example_remote :: "(string \<times> real field) list" where
  "example_remote =
     [(''U1_1'', Timed [[[1, 2]], [[3, 4]]]), (''V1_1'', Timed [[[5, 6]], [[7, 8]]]),
      (''TAUX_2'', Timed [[[1, 1]], [[1, 1]]]), (''TAUY_2'', Timed [[[2, 2]], [[2, 2]]]),
      (''SSH_2'', Timed [[[0, 1]], [[1, 0]]]), (''SST'', Timed [[[9, 9]], [[8, 8]]]),
      (''ULONG'', Static [[0, 90]]), (''ULAT'', Static [[0, 0]]),
      (''DXT'', Static [[1, 3]]), (''DYT'', Static [[2, 6]])]"

text \<open>
  \<^verbatim>\<open>
  target = ['U', 'V']
  sc1 = Scenario(['SSH'],             ['TAUX', 'TAUY'], target, name = "derp")
  sc5 = Scenario(['SSH', 'SST'], ['X', 'TAUX', 'TAUY'], target, name = "herp")
  \<close>
\<close>

definition sc1 :: scenario where
  "sc1 = \<lparr> conv_var = [''SSH''], input_var = [''TAUX'', ''TAUY''], target = [''U'', ''V''],
           name = ''derp'' \<rparr>"

definition sc5 :: scenario where
  "sc5 = \<lparr> conv_var = [''SSH'', ''SST''], input_var = [''X'', ''TAUX'', ''TAUY''],
           target = [''U'', ''V''], name = ''herp'' \<rparr>"

section \<open>Properties\<close>

subsection \<open>The built-in range\<close>

lemma le_div_pos_iff:
  fixes k a step :: int
  assumes "0 < step"
  shows "k \<le> a div step \<longleftrightarrow> k * step \<le> a"
proof
  assume "k \<le> a div step"
  then have "k * step \<le> (a div step) * step"
    using assms by (simp add: mult_right_mono)
  also have "\<dots> \<le> a"
    using assms by (metis mult.commute pos_mod_sign add_increasing2 mult_div_mod_eq order_refl)
  finally show "k * step \<le> a" .
next
  assume "k * step \<le> a"
  then have "(k * step) div step \<le> a div step"
    using assms by (rule zdiv_mono1)
  then show "k \<le> a div step"
    using assms by simp
qed

lemma range_length_pos_iff:
  assumes "0 < step"
  shows "k < range_length start stop step \<longleftrightarrow> start + int k * step < stop"
proof (cases "start < stop")
  case True
  have "0 \<le> (stop - start - 1) div step"
    using assms True by (simp add: pos_imp_zdiv_nonneg_iff)
  then have "k < range_length start stop step \<longleftrightarrow> int k \<le> (stop - start - 1) div step"
    using assms True by (auto simp: range_length_def)
  also have "\<dots> \<longleftrightarrow> int k * step \<le> stop - start - 1"
    using assms by (rule le_div_pos_iff)
  finally show ?thesis by auto
next
  case False
  have "0 \<le> int k * step"
    using assms by simp
  with False have "\<not> start + int k * step < stop"
    by linarith
  with False show ?thesis
    using assms by (simp add: range_length_def)
qed

lemma py_range_pos:
  assumes "0 < step"
  shows "py_range start stop step =
           Inr (map (\<lambda>k. start + int k * step) [0..<range_length start stop step])"
  using assms by (simp add: py_range_def)

lemma range_elems_increasing:
  assumes "0 < step"
  shows "sorted_wrt (<) (map (\<lambda>k. start + int k * step) [0..<n])"
  using assms by (simp add: sorted_wrt_map sorted_wrt_iff_nth_less)

lemma range_elems_set:
  assumes "0 < step"
  shows "set (map (\<lambda>k. start + int k * step) [0..<range_length start stop step]) =
           {a. \<exists>k::nat. a = start + int k * step \<and> a < stop}"
  using assms by (auto simp: range_length_pos_iff)

lemma py_range_neg_empty:
  assumes "step < 0" "start \<le> stop"
  shows "py_range start stop step = Inr []"
  using assms by (simp add: py_range_def range_length_def)

lemma range_length_neg:
  assumes "step < 0"
  shows "range_length start stop step = range_length (- start) (- stop) (- step)"
  using assms by (simp add: range_length_def)

lemma range_length_neg_iff:
  assumes "step < 0"
  shows "k < range_length start stop step \<longleftrightarrow> stop < start + int k * step"
proof -
  have "k < range_length (- start) (- stop) (- step) \<longleftrightarrow>
          - start + int k * (- step) < - stop"
    using assms by (intro range_length_pos_iff) simp
  moreover have "- start + int k * (- step) < - stop \<longleftrightarrow> stop < start + int k * step"
    by (simp add: algebra_simps)
  ultimately show ?thesis
    using assms by (simp only: range_length_neg)
qed

subsection \<open>The halo\<close>


lemma int64_mod: "int64 x mod 2 ^ 64 = x mod 2 ^ 64"
  unfolding int64_def by (simp add: mod_diff_left_eq mod_add_left_eq)

lemma int64_cong: "x mod 2 ^ 64 = y mod 2 ^ 64 \<Longrightarrow> int64 x = int64 y"
  unfolding int64_def by (metis mod_add_left_eq)

lemma int64_id: "- (2 ^ 63) \<le> x \<Longrightarrow> x < 2 ^ 63 \<Longrightarrow> int64 x = x"
  unfolding int64_def by simp

lemma np_sum_foldl:
  "foldl (\<lambda>acc x. int64 (acc + x)) a xs mod 2 ^ 64 = (a + sum_list xs) mod 2 ^ 64"
proof (induction xs arbitrary: a)
  case Nil
  then show ?case by simp
next
  case (Cons x xs)
  have "foldl (\<lambda>acc x. int64 (acc + x)) a (x # xs) mod 2 ^ 64 =
          (int64 (a + x) + sum_list xs) mod 2 ^ 64"
    using Cons.IH [of "int64 (a + x)"] by simp
  also have "\<dots> = (a + x + sum_list xs) mod 2 ^ 64"
    using int64_mod [of "a + x"] by (metis mod_add_left_eq)
  finally show ?case
    by (simp add: add.assoc)
qed

lemma bit_length_le: "a < 2 ^ n \<Longrightarrow> bit_length a \<le> n"
proof (induction a arbitrary: n rule: bit_length.induct)
  case (1 a)
  show ?case
  proof (cases "a = 0")
    case True
    then show ?thesis by (simp add: bit_length.simps)
  next
    case False
    then obtain m where n: "n = Suc m"
      using 1(2) by (cases n) auto
    have "a div 2 < 2 ^ m"
      using 1(2) n by auto
    then have "bit_length (a div 2) \<le> m"
      using 1(1) [OF False] by simp
    then show ?thesis
      using False n by (subst bit_length.simps) simp
  qed
qed

lemma float64_exact:
  assumes "\<bar>d\<bar> < 2 ^ 53"
  shows "float64 d = of_int d"
proof -
  have "nat \<bar>d\<bar> < 2 ^ 53"
    using assms by (simp add: nat_less_iff)
  then have "bit_length (nat \<bar>d\<bar>) - 53 = 0"
    using bit_length_le [of "nat \<bar>d\<bar>" 53] by simp
  then show ?thesis
    unfolding float64_def Let_def by (simp add: sgn_if)
qed

lemma py_int_half:
  "py_int (of_int d / 2) = (if 0 \<le> d then d div 2 else - ((- d) div 2))"
proof -
  have f: "\<lfloor>(of_int d :: rat) / 2\<rfloor> = d div 2"
    using floor_divide_of_int_eq [of d 2, where ?'a = rat] by simp
  have c: "\<lceil>(of_int d :: rat) / 2\<rceil> = - ((- d) div 2)"
    using ceiling_divide_eq_div [of d 2, where ?'a = rat] by simp
  show ?thesis
    unfolding py_int_def using f c by simp
qed

lemma halo_size_small:
  assumes "\<bar>sum_list ks - int (length ks)\<bar> < 2 ^ 53"
  shows "halo_size ks =
           (let d = sum_list ks - int (length ks)
            in if 0 \<le> d then d div 2 else - ((- d) div 2))"
proof -
  let ?d = "sum_list ks - int (length ks)"
  have "np_sum ks mod 2 ^ 64 = sum_list ks mod 2 ^ 64"
    using np_sum_foldl [of 0 ks] by (simp add: np_sum_def)
  then have "(np_sum ks - int (length ks)) mod 2 ^ 64 = ?d mod 2 ^ 64"
    by (metis mod_diff_left_eq)
  then have "int64 (np_sum ks - int (length ks)) = int64 ?d"
    by (rule int64_cong)
  also have "\<dots> = ?d"
    using assms by (intro int64_id) simp_all
  finally have eq: "int64 (np_sum ks - int (length ks)) = ?d" .
  have "float64 ?d = of_int ?d"
    using assms by (rule float64_exact)
  then have "halo_size ks = py_int (of_int ?d / 2)"
    unfolding halo_size_def eq by (simp only:)
  then show ?thesis
    unfolding py_int_half Let_def .
qed


lemma halo_size_notebook: "halo_size [5] = 2" "halo_size [3, 3, 3] = 3"
  by (simp_all add: halo_size_small)

text \<open>
  Beyond 53 bits the conversion to a float rounds: for the single odd kernel size
  \<open>2 ^ 54 + 3\<close> the difference \<open>2 ^ 54 + 2\<close> becomes the float \<open>2 ^ 54\<close>, and the halo
  is \<open>2 ^ 53\<close>, not \<open>2 ^ 53 + 1\<close>.
\<close>

lemma bit_length_eq: "2 ^ n \<le> a \<Longrightarrow> a < 2 ^ Suc n \<Longrightarrow> bit_length a = Suc n"
proof (induction n arbitrary: a)
  case 0
  then have "a = 1" by simp
  then show ?case
    by (simp add: bit_length.simps)
next
  case (Suc n)
  have "2 ^ n \<le> a div 2" "a div 2 < 2 ^ Suc n"
    using Suc.prems by auto
  then have "bit_length (a div 2) = Suc n"
    by (rule Suc.IH)
  moreover have "a \<noteq> 0"
    using Suc.prems by auto
  ultimately show ?case
    by (subst bit_length.simps) simp
qed

lemma halo_size_rounds_beyond_53_bits:
  "halo_size [18014398509481987] = 9007199254740992"
proof -
  have d: "int64 (np_sum [18014398509481987] - int (length [18014398509481987 :: int])) =
             18014398509481986"
    by (simp add: np_sum_def int64_def)
  have b: "bit_length 18014398509481986 = 55"
    using bit_length_eq [of 54 18014398509481986] by simp
  have "float64 18014398509481986 = 18014398509481984"
    by (simp add: float64_def Let_def b)
  then show ?thesis
    unfolding halo_size_def d by (simp add: py_int_def)
qed




subsection \<open>Anchors\<close>

text \<open>
  Claim C7. When the window is wider than twice the halo, the stride
  \<open>window - 2 * halo\<close> is positive, and the anchors along an axis of any length are the
  values \<open>window\<close>, \<open>window + stride\<close>, \<open>window + 2 * stride\<close>, \<dots> below the axis length:
  element \<open>k\<close> is \<open>window + k * stride\<close>, the sequence is strictly increasing, and it
  holds every such value that is less than the axis length and no other. Rows and
  columns are treated alike.
\<close>

theorem anchors_cover_axis:
  assumes "2 * halo < window"
  shows "0 < window - 2 * halo \<and>
         (\<exists>xs. nlat_range window axis_length halo = Inr xs \<and>
               nlon_range window axis_length halo = Inr xs \<and>
               (\<forall>k < length xs. xs ! k = window + int k * (window - 2 * halo)) \<and>
               sorted_wrt (<) xs \<and>
               set xs = {a. \<exists>k::nat. a = window + int k * (window - 2 * halo) \<and>
                                       a < int axis_length})"
proof -
  let ?step = "window - 2 * halo"
  let ?xs = "map (\<lambda>k. window + int k * ?step)
                 [0..<range_length window (int axis_length) ?step]"
  have pos: "0 < ?step"
    using assms by simp
  have "nlat_range window axis_length halo = Inr ?xs"
    unfolding nlat_range_def using pos by (rule py_range_pos)
  moreover have "nlon_range window axis_length halo = Inr ?xs"
    unfolding nlon_range_def using pos by (rule py_range_pos)
  moreover have "\<forall>k < length ?xs. ?xs ! k = window + int k * ?step"
    by simp
  moreover have "sorted_wrt (<) ?xs"
    using pos by (rule range_elems_increasing)
  moreover have "set ?xs = {a. \<exists>k::nat. a = window + int k * ?step \<and> a < int axis_length}"
    using pos by (rule range_elems_set)
  ultimately show ?thesis
    using pos by blast
qed

theorem anchors_cover_axis_witness:
  "2 * 2 < (5::int) \<and>
   nlat_range 5 8 2 = Inr [5, 6, 7] \<and> nlon_range 5 8 2 = Inr [5, 6, 7] \<and>
   sorted_wrt (<) [5, 6, 7 :: int] \<and>
   set [5, 6, 7 :: int] = {a. \<exists>k::nat. a = 5 + int k * (5 - 2 * 2) \<and> a < int 8}"
proof -
  have anchors: "nlat_range 5 8 2 = Inr [5, 6, 7]" "nlon_range 5 8 2 = Inr [5, 6, 7]"
    by (simp_all add: nlat_range_def nlon_range_def py_range_def range_length_def upt_rec)
  from anchors_cover_axis [of 2 5 8] anchors show ?thesis
    by auto
qed

lemma stride_zero_raises:
  assumes "nlons = 2 * halo \<or> nlats = 2 * halo"
  shows "build_batch ds nlons nlats halo = Inl ValueError"
  using assms
  by (auto simp: build_batch_def candidates_def nlon_range_def nlat_range_def py_range_def)

lemma stride_negative_empty:
  assumes "nlons < 2 * halo" "nlats < 2 * halo"
    and "0 < nlons" "nlons \<le> int (sizes_nlon ds)" "0 < nlats" "nlats \<le> int (sizes_nlat ds)"
  shows "build_batch ds nlons nlats halo =
           Inr \<lparr> sizes_input_batch = 0, win_nlat = nat nlats, win_nlon = nat nlons,
                 batch_vars = map (\<lambda>(x, g). (x, [])) (data_vars ds) \<rparr>"
  using assms
  by (simp add: build_batch_def candidates_def nlon_range_def nlat_range_def py_range_neg_empty
      stacked_def isel_anchors_def stack_def dropna_def isel_input_batch_nat_def case_prod_beta)

lemma batch_generator_empty:
  assumes "sizes_input_batch bs = 0" "0 \<le> b"
  shows "batch_generator bs b = Some ([], None)"
  using assms by (simp add: batch_generator_def batch_generator_from.simps)

text \<open>
  Claim C2, as the notebook has it. No cell checks the stride. A stride of zero
  (\<open>window = 2 * halo\<close>) makes \<^verbatim>\<open>range\<close> raise \<^verbatim>\<open>ValueError\<close>, which ends the batch cell.
  A negative stride (\<open>window < 2 * halo\<close>) raises nothing: \<^verbatim>\<open>range\<close> counts down from the
  window size to above the axis length, so the anchors are empty whenever the window
  fits the axis, and for a square window that fits both axes the batch cell returns a
  patch collection of length zero, from which the generator yields nothing.
\<close>

theorem nonpositive_stride_outcome:
  assumes "window \<le> 2 * halo"
  shows "window - 2 * halo \<le> 0 \<and>
         (window = 2 * halo \<longrightarrow>
            nlat_range window axis_length halo = Inl ValueError \<and>
            nlon_range window axis_length halo = Inl ValueError \<and>
            build_batch ds window window halo = Inl ValueError) \<and>
         (window < 2 * halo \<and> window \<le> int axis_length \<longrightarrow>
            nlat_range window axis_length halo = Inr [] \<and>
            nlon_range window axis_length halo = Inr []) \<and>
         (window < 2 * halo \<and> 0 < window \<and>
          window \<le> int (sizes_nlat ds) \<and> window \<le> int (sizes_nlon ds) \<longrightarrow>
            build_batch ds window window halo =
              Inr \<lparr> sizes_input_batch = 0, win_nlat = nat window, win_nlon = nat window,
                    batch_vars = map (\<lambda>(x, g). (x, [])) (data_vars ds) \<rparr> \<and>
            (\<forall>b \<ge> 0.
               batch_generator
                 \<lparr> sizes_input_batch = 0, win_nlat = nat window, win_nlon = nat window,
                   batch_vars = map (\<lambda>(x, g). (x, [])) (data_vars ds) \<rparr> b = Some ([], None)))"
proof -
  have "window - 2 * halo \<le> 0"
    using assms by simp
  moreover have "nlat_range window axis_length halo = Inl ValueError"
    and "nlon_range window axis_length halo = Inl ValueError"
    and "build_batch ds window window halo = Inl ValueError"
    if "window = 2 * halo"
    using that by (simp_all add: nlat_range_def nlon_range_def py_range_def stride_zero_raises)
  moreover have "nlat_range window axis_length halo = Inr []"
    and "nlon_range window axis_length halo = Inr []"
    if "window < 2 * halo" "window \<le> int axis_length"
    using that by (simp_all add: nlat_range_def nlon_range_def py_range_neg_empty)
  moreover have "build_batch ds window window halo =
              Inr \<lparr> sizes_input_batch = 0, win_nlat = nat window, win_nlon = nat window,
                    batch_vars = map (\<lambda>(x, g). (x, [])) (data_vars ds) \<rparr>"
    if "window < 2 * halo" "0 < window"
      "window \<le> int (sizes_nlat ds)" "window \<le> int (sizes_nlon ds)"
    using that by (simp add: stride_negative_empty)
  moreover have "\<forall>b \<ge> 0.
               batch_generator
                 \<lparr> sizes_input_batch = 0, win_nlat = nat window, win_nlon = nat window,
                   batch_vars = map (\<lambda>(x, g). (x, [])) (data_vars ds) \<rparr> b = Some ([], None)"
    by (simp add: batch_generator_empty)
  ultimately show ?thesis
    by blast
qed

theorem nonpositive_stride_outcome_witness:
  "(4::int) \<le> 2 * 2 \<and> nlat_range 4 10 2 = Inl ValueError \<and>
   (3::int) \<le> 2 * 2 \<and> nlon_range 3 10 2 = Inr [] \<and>
   build_batch \<lparr> sizes_nlat = 3, sizes_nlon = 3,
                 data_vars = [(''SSH'', replicate 3 (replicate 3 (Some (0::nat))))] \<rparr> 3 3 2 =
     Inr \<lparr> sizes_input_batch = 0, win_nlat = 3, win_nlon = 3, batch_vars = [(''SSH'', [])] \<rparr>"
proof -
  let ?ds = "\<lparr> sizes_nlat = 3, sizes_nlon = 3,
               data_vars = [(''SSH'', replicate 3 (replicate 3 (Some (0::nat))))] \<rparr>"
  have zero: "(4::int) \<le> 2 * 2" and negative: "(3::int) \<le> 2 * 2"
    by simp_all
  have "nlat_range 4 10 2 = Inl ValueError"
    using nonpositive_stride_outcome [OF zero, of 10 ?ds] by simp
  moreover have "nlon_range 3 10 2 = Inr []"
    using nonpositive_stride_outcome [OF negative, of 10 ?ds] by simp blast
  moreover have "build_batch ?ds 3 3 2 =
     Inr \<lparr> sizes_input_batch = 0, win_nlat = 3, win_nlon = 3, batch_vars = [(''SSH'', [])] \<rparr>"
    using nonpositive_stride_outcome [OF negative, of 10 ?ds] by simp blast
  ultimately show ?thesis
    using zero negative by blast
qed

theorem negative_stride_not_flagged:
  "halo_size [3, 3, 3] = 3 \<and>
   nlon_range 5 350 (halo_size [3, 3, 3]) = Inr [] \<and>
   nlat_range 5 550 (halo_size [3, 3, 3]) = Inr [] \<and>
   build_batch \<lparr> sizes_nlat = 6, sizes_nlon = 6,
                 data_vars = [(''SSH'', replicate 6 (replicate 6 (Some (0::nat))))] \<rparr>
       5 5 (halo_size [3, 3, 3]) =
     Inr \<lparr> sizes_input_batch = 0, win_nlat = 5, win_nlon = 5, batch_vars = [(''SSH'', [])] \<rparr> \<and>
   batch_generator \<lparr> sizes_input_batch = 0, win_nlat = 5, win_nlon = 5,
                     batch_vars = [(''SSH'', [] :: nat option list list list)] \<rparr> 4096 =
     Some ([], None)"
  by (simp add: build_batch_def candidates_def halo_size_small nlon_range_def nlat_range_def
      py_range_def range_length_def stacked_def isel_anchors_def stack_def dropna_def
      isel_input_batch_nat_def batch_generator_def batch_generator_from.simps)

subsection \<open>The generator of mini-batches\<close>

lemma norm_indices_in_range:
  assumes "\<forall>i\<in>set is. 0 \<le> i \<and> i < int n"
  shows "norm_indices n is = Inr (map nat is)"
  using assms by (induction "is") (auto simp: norm_index_def)

lemma range2_nat:
  "map nat (range2 (int n) (int n + int b)) = [n..<n + b]"
proof -
  have "map nat (range2 (int n) (int n + int b)) = map (\<lambda>k. k + n) [0..<b]"
    by (simp add: range2_def o_def nat_add_distrib add.commute)
  then show ?thesis
    by (simp add: map_add_upt add.commute)
qed

lemma isel_input_batch_slice:
  assumes "n + b \<le> sizes_input_batch bs"
  shows "isel_input_batch bs (range2 (int n) (int n + int b)) =
           Inr (isel_input_batch_nat bs [n..<n + b])"
proof -
  have "\<forall>i\<in>set (range2 (int n) (int n + int b)). 0 \<le> i \<and> i < int (sizes_input_batch bs)"
    using assms by (auto simp: range2_def)
  then show ?thesis
    by (simp add: isel_input_batch_def norm_indices_in_range range2_nat)
qed

lemma cnt_step:
  fixes N n b :: nat
  assumes "0 < b" "n + b < N"
  shows "(N - n - 1) div b = Suc ((N - (n + b) - 1) div b)"
proof -
  have "N - n - 1 = (N - (n + b) - 1) + b"
    using assms by arith
  moreover have "(x + b) div b = Suc (x div b)" for x
    using assms by simp
  ultimately show ?thesis by (simp only:)
qed

lemma map_shift:
  "f n # map (\<lambda>k. f (n + b + k * b)) [0..<c] = map (\<lambda>k. f (n + k * b)) [0..<Suc c]"
proof -
  have "[0..<Suc c] = 0 # map Suc [0..<c]"
    by (simp add: upt_conv_Cons map_Suc_upt del: upt_Suc)
  then show ?thesis
    by (simp add: o_def add.assoc del: upt_Suc)
qed

lemma batch_generator_from_run:
  assumes "0 < b"
  shows "batch_generator_from bs (int b) (int n) =
           Some (map (\<lambda>k. isel_input_batch_nat bs [n + k * b..<n + k * b + b])
                     [0..<(sizes_input_batch bs - n - 1) div b], None)"
proof (induction "sizes_input_batch bs - n" arbitrary: n rule: less_induct)
  case less
  show ?case
  proof (cases "n + b < sizes_input_batch bs")
    case True
    have sel: "isel_input_batch bs (range2 (int n) (int n + int b)) =
                 Inr (isel_input_batch_nat bs [n..<n + b])"
      using True by (simp add: isel_input_batch_slice)
    have smaller: "sizes_input_batch bs - (n + b) < sizes_input_batch bs - n"
      using True assms by arith
    have cnt: "(sizes_input_batch bs - n - 1) div b =
                 Suc ((sizes_input_batch bs - (n + b) - 1) div b)"
      using assms True by (rule cnt_step)
    have rest: "batch_generator_from bs (int b) (int (n + b)) =
           Some (map (\<lambda>k. isel_input_batch_nat bs [n + b + k * b..<n + b + k * b + b])
                     [0..<(sizes_input_batch bs - (n + b) - 1) div b], None)"
      using less [OF smaller] .
    have guard: "int n < int (sizes_input_batch bs) - int b"
      using True by arith
    have "batch_generator_from bs (int b) (int n) =
            Option.bind (batch_generator_from bs (int b) (int n + int b))
              (\<lambda>(ys, r). Some (isel_input_batch_nat bs [n..<n + b] # ys, r))"
      by (subst batch_generator_from.simps) (simp add: guard sel)
    also have "\<dots> = Some (isel_input_batch_nat bs [n..<n + b] #
                   map (\<lambda>k. isel_input_batch_nat bs [n + b + k * b..<n + b + k * b + b])
                     [0..<(sizes_input_batch bs - (n + b) - 1) div b], None)"
      using rest by simp
    also have "\<dots> = Some (map (\<lambda>k. isel_input_batch_nat bs [n + k * b..<n + k * b + b])
                     [0..<(sizes_input_batch bs - n - 1) div b], None)"
      unfolding cnt
      using map_shift [of "\<lambda>m. isel_input_batch_nat bs [m..<m + b]" n b] by simp
    finally show ?thesis .
  next
    case False
    then have "(sizes_input_batch bs - n - 1) div b = 0"
      using assms by simp
    moreover have "\<not> int n < int (sizes_input_batch bs) - int b"
      using False by arith
    ultimately show ?thesis
      by (subst batch_generator_from.simps) simp
  qed
qed

text \<open>
  For a positive batch size the generator ends normally, and it yields the slices
  \<open>[0, b)\<close>, \<open>[b, 2b)\<close>, \<dots> of the patch axis, in this order, as long as more than
  \<open>b\<close> patches are left at the start of a slice: \<open>(N - 1) div b\<close> mini-batches.
\<close>

theorem batch_generator_run:
  assumes "0 < b"
  shows "batch_generator bs (int b) =
           Some (map (\<lambda>k. isel_input_batch_nat bs [k * b..<k * b + b])
                     [0..<(sizes_input_batch bs - 1) div b], None)"
  using batch_generator_from_run [OF assms, of bs 0] by (simp add: batch_generator_def)

theorem batch_generator_run_witness:
  "(0::nat) < 2 \<and>
   batch_generator
     \<lparr> sizes_input_batch = 5, win_nlat = 1, win_nlon = 1,
       batch_vars = [(''SSH'', [[[Some (0::nat)]], [[Some 1]], [[Some 2]], [[Some 3]], [[Some 4]]])] \<rparr>
     (int 2) =
   Some ([\<lparr> sizes_input_batch = 2, win_nlat = 1, win_nlon = 1,
             batch_vars = [(''SSH'', [[[Some 0]], [[Some 1]]])] \<rparr>,
          \<lparr> sizes_input_batch = 2, win_nlat = 1, win_nlon = 1,
             batch_vars = [(''SSH'', [[[Some 2]], [[Some 3]]])] \<rparr>], None)"
  using batch_generator_run [of 2
     "\<lparr> sizes_input_batch = 5, win_nlat = 1, win_nlon = 1,
       batch_vars = [(''SSH'', [[[Some (0::nat)]], [[Some 1]], [[Some 2]], [[Some 3]], [[Some 4]]])] \<rparr>"]
  by (simp add: isel_input_batch_nat_def upt_rec)

text \<open>
  Claim C1 at a collection of four patches and a batch size of two. The loop guard
  \<^verbatim>\<open>n < len(batch_set['input_batch']) - batch_size\<close> is strict, so the second full
  slice \<open>[2, 4)\<close> is not yielded: the run has one mini-batch where \<open>4 div 2 = 2\<close> are
  due. With a batch size of four, the whole collection, nothing is yielded at all.
\<close>

theorem batch_generator_drops_last_full_batch:
  "batch_generator
     \<lparr> sizes_input_batch = 4, win_nlat = 1, win_nlon = 1,
       batch_vars = [(''SSH'', [[[Some (0::nat)]], [[Some 1]], [[Some 2]], [[Some 3]]])] \<rparr> 2 =
   Some ([\<lparr> sizes_input_batch = 2, win_nlat = 1, win_nlon = 1,
             batch_vars = [(''SSH'', [[[Some 0]], [[Some 1]]])] \<rparr>], None) \<and>
   batch_generator
     \<lparr> sizes_input_batch = 4, win_nlat = 1, win_nlon = 1,
       batch_vars = [(''SSH'', [[[Some (0::nat)]], [[Some 1]], [[Some 2]], [[Some 3]]])] \<rparr> 4 =
   Some ([], None)"
  by code_simp

subsection \<open>The rolling construction and the stacked patches\<close>

lemma norm_indices_Inr:
  assumes "norm_indices n is = Inr ks"
  shows "length ks = length is \<and> (\<forall>k \<in> set ks. k < n)"
  using assms
proof (induction "is" arbitrary: ks)
  case Nil
  then show ?case by simp
next
  case (Cons i "is")
  then show ?case
    by (auto simp: norm_index_def split: sum.splits if_splits)
qed

lemma window_at_shape:
  "length (window_at nlats nlons g i j) = nlats \<and>
   (\<forall>row \<in> set (window_at nlats nlons g i j). length row = nlons)"
  by (auto simp: window_at_def)

lemma rolling_construct_nth:
  assumes "i < latlen" "j < lonlen"
  shows "rolling_construct latlen lonlen nlats nlons g ! i ! j = window_at nlats nlons g i j"
  using assms by (simp add: rolling_construct_def)


lemma stack_isel_length:
  "length (stack (isel_anchors lat_ix lon_ix c)) = length lat_ix * length lon_ix"
  by (induction lat_ix) (simp_all add: stack_def isel_anchors_def)


lemma stack_isel_set:
  "set (stack (isel_anchors lat_ix lon_ix c)) =
     {c ! i ! j | i j. i \<in> set lat_ix \<and> j \<in> set lon_ix}"
  by (auto simp: stack_def isel_anchors_def)

lemma stacked_well_shaped:
  fixes ds :: "'a dataset"
  assumes "\<forall>i \<in> set lat_ix. i < sizes_nlat ds" "\<forall>j \<in> set lon_ix. j < sizes_nlon ds"
  shows "well_shaped (stacked ds nlats nlons lat_ix lon_ix)"
proof -
  have "length w = nlats \<and> (\<forall>row \<in> set w. length row = nlons)"
    if "w \<in> set (stack (isel_anchors lat_ix lon_ix
                   (rolling_construct (sizes_nlat ds) (sizes_nlon ds) nlats nlons g)))"
    for w :: "'a option list list" and g :: "'a option list list"
  proof -
    let ?c = "rolling_construct (sizes_nlat ds) (sizes_nlon ds) nlats nlons g"
    have "w \<in> {?c ! i ! j | i j. i \<in> set lat_ix \<and> j \<in> set lon_ix}"
      using that by (simp only: stack_isel_set)
    then obtain i j where "i \<in> set lat_ix" "j \<in> set lon_ix"
      and "w = ?c ! i ! j"
      by blast
    then have "w = window_at nlats nlons g i j"
      using assms by (simp add: rolling_construct_nth)
    then show ?thesis
      using window_at_shape [of nlats nlons g i j] by simp
  qed
  then show ?thesis
    unfolding well_shaped_def stacked_def
    by (auto simp: stack_isel_length)
qed

lemma candidates_Inr:
  assumes "candidates ds nlons nlats halo = Inr c"
  shows "\<exists>lat_anchors lon_anchors lat_ix lon_ix.
           nlat_range nlats (sizes_nlat ds) halo = Inr lat_anchors \<and>
           nlon_range nlons (sizes_nlon ds) halo = Inr lon_anchors \<and>
           norm_indices (sizes_nlat ds) lat_anchors = Inr lat_ix \<and>
           norm_indices (sizes_nlon ds) lon_anchors = Inr lon_ix \<and>
           0 < nlats \<and> 0 < nlons \<and>
           c = stacked ds (nat nlats) (nat nlons) lat_ix lon_ix"
  using assms unfolding candidates_def
  by (auto split: sum.splits if_splits)

lemma candidates_well_shaped:
  assumes "candidates ds nlons nlats halo = Inr c"
  shows "well_shaped c"
proof -
  obtain lat_anchors lon_anchors lat_ix lon_ix where
    "norm_indices (sizes_nlat ds) lat_anchors = Inr lat_ix"
    "norm_indices (sizes_nlon ds) lon_anchors = Inr lon_ix"
    "c = stacked ds (nat nlats) (nat nlons) lat_ix lon_ix"
    using candidates_Inr [OF assms] by blast
  then show ?thesis
    using norm_indices_Inr [of "sizes_nlat ds" lat_anchors lat_ix]
      norm_indices_Inr [of "sizes_nlon ds" lon_anchors lon_ix]
    by (simp add: stacked_well_shaped)
qed

subsection \<open>Dropping incomplete patches\<close>

lemma length_concat_uniform:
  assumes "\<forall>row \<in> set w. length row = m"
  shows "length (concat w) = length w * m"
  using assms by (induction w) auto

lemma length_filter_eq_iff:
  "length (filter P xs) = length xs \<longleftrightarrow> (\<forall>x \<in> set xs. P x)"
proof
  assume full: "length (filter P xs) = length xs"
  show "\<forall>x \<in> set xs. P x"
  proof
    fix x assume "x \<in> set xs"
    then show "P x"
      using full length_filter_less [of x xs P] by auto
  qed
next
  assume "\<forall>x \<in> set xs. P x"
  then show "length (filter P xs) = length xs"
    by simp
qed

lemma count_notnull_le:
  assumes "length w = rows" "\<forall>row \<in> set w. length row = cols"
  shows "count_notnull w \<le> rows * cols"
proof -
  have "count_notnull w \<le> length (concat w)"
    by (simp add: count_notnull_def)
  also have "\<dots> = rows * cols"
    using length_concat_uniform [OF assms(2)] assms(1) by (simp only:)
  finally show ?thesis .
qed

lemma count_notnull_full_iff:
  assumes "length w = rows" "\<forall>row \<in> set w. length row = cols"
  shows "count_notnull w = rows * cols \<longleftrightarrow> (\<forall>row \<in> set w. None \<notin> set row)"
proof -
  have len: "rows * cols = length (concat w)"
    using length_concat_uniform [OF assms(2)] assms(1) by (simp only:)
  have "count_notnull w = length (concat w) \<longleftrightarrow> (\<forall>v \<in> set (concat w). v \<noteq> None)"
    unfolding count_notnull_def by (rule length_filter_eq_iff)
  also have "\<dots> \<longleftrightarrow> None \<notin> set (concat w)"
    by metis
  also have "\<dots> \<longleftrightarrow> (\<forall>row \<in> set w. None \<notin> set row)"
    by simp
  finally show ?thesis
    unfolding len .
qed

lemma sum_list_eq_pointwise:
  fixes f g :: "'b \<Rightarrow> nat"
  assumes "\<forall>x \<in> set xs. f x \<le> g x"
  shows "sum_list (map f xs) = sum_list (map g xs) \<longleftrightarrow> (\<forall>x \<in> set xs. f x = g x)"
  using assms
proof (induction xs)
  case Nil
  then show ?case by simp
next
  case (Cons x xs)
  have "sum_list (map f xs) \<le> sum_list (map g xs)"
    using Cons.prems by (simp add: sum_list_mono)
  moreover have "f x \<le> g x"
    using Cons.prems by simp
  ultimately show ?case
    using Cons by auto
qed

lemma dropna_keeps_iff:
  assumes "well_shaped bs" "k < sizes_input_batch bs"
  shows "dropna_count bs k = dropna_size bs \<longleftrightarrow> \<not> patch_has_nan bs k"
proof -
  let ?f = "\<lambda>(x, ws). count_notnull (ws ! k)"
  let ?g = "\<lambda>(x :: string, ws :: 'a option list list list). win_nlat bs * win_nlon bs"
  have shape: "length (ws ! k) = win_nlat bs \<and> (\<forall>row \<in> set (ws ! k). length row = win_nlon bs)"
    if "(x, ws) \<in> set (batch_vars bs)" for x ws
  proof -
    have "length ws = sizes_input_batch bs"
      and all: "\<forall>w \<in> set ws. length w = win_nlat bs \<and> (\<forall>row \<in> set w. length row = win_nlon bs)"
      using assms(1) that by (auto simp: well_shaped_def)
    then have "ws ! k \<in> set ws"
      using assms(2) by simp
    with all show ?thesis by blast
  qed
  have le: "\<forall>p \<in> set (batch_vars bs). ?f p \<le> ?g p"
  proof
    fix p assume p: "p \<in> set (batch_vars bs)"
    obtain x ws where xws: "p = (x, ws)"
      by (cases p)
    have "count_notnull (ws ! k) \<le> win_nlat bs * win_nlon bs"
      using shape [of x ws] p xws by (intro count_notnull_le) simp_all
    then show "?f p \<le> ?g p"
      by (simp add: xws)
  qed
  have "dropna_count bs k = dropna_size bs \<longleftrightarrow> (\<forall>p \<in> set (batch_vars bs). ?f p = ?g p)"
    unfolding dropna_count_def dropna_size_def
    using sum_list_eq_pointwise [of "batch_vars bs" ?f ?g] le by (simp only:)
  also have "\<dots> \<longleftrightarrow> (\<forall>p \<in> set (batch_vars bs). \<forall>row \<in> set (snd p ! k). None \<notin> set row)"
  proof (intro ball_cong refl)
    fix p assume p: "p \<in> set (batch_vars bs)"
    obtain x ws where xws: "p = (x, ws)"
      by (cases p)
    have "count_notnull (ws ! k) = win_nlat bs * win_nlon bs \<longleftrightarrow>
            (\<forall>row \<in> set (ws ! k). None \<notin> set row)"
      using shape [of x ws] p xws by (intro count_notnull_full_iff) simp_all
    then show "?f p = ?g p \<longleftrightarrow> (\<forall>row \<in> set (snd p ! k). None \<notin> set row)"
      by (simp add: xws)
  qed
  also have "\<dots> \<longleftrightarrow> \<not> patch_has_nan bs k"
    unfolding patch_has_nan_def by (simp add: case_prod_beta)
  finally show ?thesis .
qed

lemma dropna_filter:
  assumes "well_shaped bs"
  shows "dropna bs =
           isel_input_batch_nat bs
             (filter (\<lambda>k. \<not> patch_has_nan bs k) [0..<sizes_input_batch bs])"
proof -
  have "filter (\<lambda>k. dropna_count bs k = dropna_size bs) [0..<sizes_input_batch bs] =
        filter (\<lambda>k. \<not> patch_has_nan bs k) [0..<sizes_input_batch bs]"
    using assms by (intro filter_cong) (auto simp: dropna_keeps_iff)
  then show ?thesis
    by (simp add: dropna_def)
qed

text \<open>
  Claim C4. The batch cell first lays out one candidate patch per pair of a row
  anchor and a column anchor, and \<^verbatim>\<open>dropna\<close> then keeps, in their order, exactly the
  candidates that hold no not-a-number in any cell of any variable: a candidate with a
  not-a-number somewhere is never kept, a candidate without one always is.
\<close>

theorem dropna_keeps_complete_patches:
  assumes "candidates ds nlons nlats halo = Inr c"
  shows "\<exists>kept. build_batch ds nlons nlats halo = Inr (isel_input_batch_nat c kept) \<and>
                kept = filter (\<lambda>k. \<not> patch_has_nan c k) [0..<sizes_input_batch c] \<and>
                (\<forall>k < sizes_input_batch c. k \<in> set kept \<longleftrightarrow> \<not> patch_has_nan c k)"
proof -
  have "well_shaped c"
    using assms by (rule candidates_well_shaped)
  then have "dropna c =
               isel_input_batch_nat c
                 (filter (\<lambda>k. \<not> patch_has_nan c k) [0..<sizes_input_batch c])"
    by (rule dropna_filter)
  then show ?thesis
    using assms by (simp add: build_batch_def)
qed

theorem dropna_keeps_complete_patches_witness:
  "candidates
     \<lparr> sizes_nlat = 3, sizes_nlon = 3,
       data_vars = [(''SSH'', [[Some (0::nat), Some 1, Some 2],
                              [Some 10, Some 11, Some 12],
                              [Some 20, None, Some 22]])] \<rparr> 1 1 0 =
     Inr \<lparr> sizes_input_batch = 4, win_nlat = 1, win_nlon = 1,
           batch_vars = [(''SSH'', [[[Some 11]], [[Some 12]], [[None]], [[Some 22]]])] \<rparr> \<and>
   build_batch
     \<lparr> sizes_nlat = 3, sizes_nlon = 3,
       data_vars = [(''SSH'', [[Some (0::nat), Some 1, Some 2],
                              [Some 10, Some 11, Some 12],
                              [Some 20, None, Some 22]])] \<rparr> 1 1 0 =
     Inr \<lparr> sizes_input_batch = 3, win_nlat = 1, win_nlon = 1,
           batch_vars = [(''SSH'', [[[Some 11]], [[Some 12]], [[Some 22]]])] \<rparr>"
proof -
  have c: "candidates
     \<lparr> sizes_nlat = 3, sizes_nlon = 3,
       data_vars = [(''SSH'', [[Some (0::nat), Some 1, Some 2],
                              [Some 10, Some 11, Some 12],
                              [Some 20, None, Some 22]])] \<rparr> 1 1 0 =
     Inr \<lparr> sizes_input_batch = 4, win_nlat = 1, win_nlon = 1,
           batch_vars = [(''SSH'', [[[Some 11]], [[Some 12]], [[None]], [[Some 22]]])] \<rparr>"
    by code_simp
  from dropna_keeps_complete_patches [OF c] c show ?thesis
    by (simp add: patch_has_nan_def isel_input_batch_nat_def upt_rec)
qed

subsection \<open>The tensors handed to the model\<close>

lemma norm_indices_Inr_map:
  assumes "norm_indices n is = Inr ks"
  shows "ks = map (\<lambda>i. nat (if i < 0 then i + int n else i)) is \<and>
         (\<forall>i \<in> set is. - int n \<le> i \<and> i < int n)"
  using assms
proof (induction "is" arbitrary: ks)
  case Nil
  then show ?case by simp
next
  case (Cons i "is")
  then show ?case
    by (auto simp: norm_index_def split: sum.splits if_splits)
qed

lemma sub_indices:
  assumes ok: "norm_indices (nat w) (range2 h (w - h)) = Inr ks"
  shows "length ks = nat (w - 2 * h)" and "k < length ks \<Longrightarrow> ks ! k = nat h + k"
proof -
  have ks: "ks = map (\<lambda>i. nat (if i < 0 then i + int (nat w) else i)) (range2 h (w - h))"
    and bounds: "\<forall>i \<in> set (range2 h (w - h)). - int (nat w) \<le> i \<and> i < int (nat w)"
    using norm_indices_Inr_map [OF ok] by simp_all
  show len: "length ks = nat (w - 2 * h)"
    by (simp add: ks range2_def)
  show "ks ! k = nat h + k" if "k < length ks"
  proof -
    have nonempty: "0 < w - 2 * h"
      using that len by simp
    have "w - h - 1 \<in> set (range2 h (w - h))"
    proof -
      have "w - h - 1 = h + int (nat (w - 2 * h - 1))"
        using nonempty by simp
      moreover have "nat (w - 2 * h - 1) < nat (w - h - h)"
        using nonempty by simp
      ultimately show ?thesis
        unfolding range2_def by (metis (no_types, lifting) atLeast0LessThan image_eqI lessThan_iff list.set_map set_upt)
    qed
    then have last: "- int (nat w) \<le> w - h - 1 \<and> w - h - 1 < int (nat w)"
      using bounds by blast
    have "0 < w"
    proof (rule ccontr)
      assume "\<not> 0 < w"
      then have "int (nat w) = 0" by simp
      with last show False by arith
    qed
    with last have h: "0 \<le> h"
      by simp
    have "ks ! k = nat (h + int k)"
      using that len h by (simp add: ks range2_def)
    then show ?thesis
      using h by (simp add: nat_add_distrib)
  qed
qed

lemma merge_map:
  "merge (map (\<lambda>x. (x, f x)) xs) = map (\<lambda>x. (x, f x)) (declared_order xs)"
proof (induction xs rule: declared_order.induct)
  case 1
  then show ?case by simp
next
  case (2 x xs)
  have "filter (\<lambda>q. fst q \<noteq> x) (map (\<lambda>x. (x, f x)) xs) =
          map (\<lambda>x. (x, f x)) (filter (\<lambda>y. y \<noteq> x) xs)"
    by (simp add: filter_map o_def)
  then show ?case
    using 2 by simp
qed

lemma getitems_Inr:
  assumes "getitems bs names = Inr arrs"
  shows "arrs = map (\<lambda>x. (x, the (map_of (batch_vars bs) x))) names"
  using assms
  by (induction names arbitrary: arrs) (auto simp: getitem_def split: sum.splits option.splits)

lemma getitems_sub_Inr:
  assumes "getitems_sub bs s names = Inr arrs" "names \<noteq> []"
  shows "\<exists>cs rs. norm_indices (win_nlon bs) (sub_nlon s) = Inr cs \<and>
                 norm_indices (win_nlat bs) (sub_nlat s) = Inr rs \<and>
                 arrs = map (\<lambda>x. (x, map (\<lambda>w. map (\<lambda>r. map (\<lambda>c. w ! r ! c) cs) rs)
                                          (the (map_of (batch_vars bs) x)))) names"
  using assms
proof (induction names arbitrary: arrs)
  case Nil
  then show ?case by simp
next
  case (Cons x names)
  from Cons.prems(1) obtain ws ws' rest where
    ws: "map_of (batch_vars bs) x = Some ws"
    and sel: "isel_sub bs s ws = Inr ws'"
    and rest: "getitems_sub bs s names = Inr rest"
    and arrs: "arrs = (x, ws') # rest"
    by (auto simp: getitem_def split: sum.splits option.splits)
  from sel obtain cs rs where
    cs: "norm_indices (win_nlon bs) (sub_nlon s) = Inr cs"
    and rs: "norm_indices (win_nlat bs) (sub_nlat s) = Inr rs"
    and ws': "ws' = map (\<lambda>w. map (\<lambda>r. map (\<lambda>c. w ! r ! c) cs) rs) ws"
    by (auto simp: isel_sub_def split: sum.splits)
  show ?case
  proof (cases "names = []")
    case True
    then show ?thesis
      using rest arrs ws ws' cs rs by simp
  next
    case False
    from Cons.IH [OF rest False] cs rs
    have "rest = map (\<lambda>x. (x, map (\<lambda>w. map (\<lambda>r. map (\<lambda>c. w ! r ! c) cs) rs)
                                          (the (map_of (batch_vars bs) x)))) names"
      by simp
    then show ?thesis
      using arrs ws ws' cs rs by simp
  qed
qed

lemma to_array_Inr:
  assumes "to_array n rows cols (map (\<lambda>x. (x, f x)) names) = Inr T"
  shows "has_shape T n rows cols (length (declared_order names))"
    and "s < n \<Longrightarrow> r < rows \<Longrightarrow> c < cols \<Longrightarrow> v < length (declared_order names) \<Longrightarrow>
           T ! s ! r ! c ! v = f (declared_order names ! v) ! s ! r ! c"
proof -
  have T: "T = map (\<lambda>s. map (\<lambda>r. map (\<lambda>c. map (\<lambda>x. f x ! s ! r ! c) (declared_order names))
                                      [0..<cols])
                            [0..<rows])
                    [0..<n]"
    using assms by (simp add: to_array_def merge_map o_def split: if_splits)
  show "has_shape T n rows cols (length (declared_order names))"
    unfolding T has_shape_def by (simp add: list_all_iff)
  show "T ! s ! r ! c ! v = f (declared_order names ! v) ! s ! r ! c"
    if "s < n" "r < rows" "c < cols" "v < length (declared_order names)"
    using that unfolding T by simp
qed

lemma sub_lengths:
  "length (sub_nlat (sub halo nlons nlats)) = nat (nlats - 2 * halo)"
  "length (sub_nlon (sub halo nlons nlats)) = nat (nlons - 2 * halo)"
  by (simp_all add: sub_def range2_def)

lemma build_batch_win:
  assumes "build_batch ds nlons nlats halo = Inr batch"
  shows "win_nlat batch = nat nlats \<and> win_nlon batch = nat nlons"
proof -
  obtain c where c: "candidates ds nlons nlats halo = Inr c" and batch: "batch = dropna c"
    using assms by (auto simp: build_batch_def split: sum.splits)
  obtain lat_ix lon_ix where "c = stacked ds (nat nlats) (nat nlons) lat_ix lon_ix"
    using candidates_Inr [OF c] by blast
  then show ?thesis
    by (simp add: batch dropna_def isel_input_batch_nat_def stacked_def)
qed

lemma yielded_batch:
  assumes "batch_generator batch (int b) = Some (ys, e)" "0 < b" "mb \<in> set ys"
  shows "sizes_input_batch mb = b \<and> win_nlat mb = win_nlat batch \<and> win_nlon mb = win_nlon batch"
proof -
  have "ys = map (\<lambda>k. isel_input_batch_nat batch [k * b..<k * b + b])
                 [0..<(sizes_input_batch batch - 1) div b]"
    using assms(1) batch_generator_from_run [OF assms(2), of batch 0]
    by (simp add: batch_generator_def)
  then obtain k where "mb = isel_input_batch_nat batch [k * b..<k * b + b]"
    using assms(3) by auto
  then show ?thesis
    by (simp add: isel_input_batch_nat_def)
qed

lemma set_declared_order: "set (declared_order xs) = set xs"
  by (induction xs rule: declared_order.induct) auto

lemma getitems_sub_present:
  assumes "getitems_sub bs s names = Inr arrs" "x \<in> set names"
  shows "\<exists>ws. map_of (batch_vars bs) x = Some ws"
  using assms
  by (induction names arbitrary: arrs) (auto simp: getitem_def split: sum.splits option.splits)

lemma getitems_present:
  assumes "getitems bs names = Inr arrs" "x \<in> set names"
  shows "\<exists>ws. map_of (batch_vars bs) x = Some ws"
  using assms
  by (induction names arbitrary: arrs) (auto simp: getitem_def split: sum.splits option.splits)

lemma yielded_batch_vars:
  assumes "batch_generator batch (int b) = Some (ys, e)" "0 < b" "mb \<in> set ys"
    and "map_of (batch_vars mb) x = Some ws"
  shows "length ws = b"
proof -
  have "ys = map (\<lambda>k. isel_input_batch_nat batch [k * b..<k * b + b])
                 [0..<(sizes_input_batch batch - 1) div b]"
    using assms(1) batch_generator_from_run [OF assms(2), of batch 0]
    by (simp add: batch_generator_def)
  then obtain k where mb: "mb = isel_input_batch_nat batch [k * b..<k * b + b]"
    using assms(3) by auto
  have "(x, ws) \<in> set (batch_vars mb)"
    using assms(4) by (rule map_of_SomeD)
  then show ?thesis
    unfolding mb isel_input_batch_nat_def by auto
qed

lemma conv_tensor_Inr:
  assumes gs: "getitems mb names = Inr arrs"
    and ct: "conv_tensor mb arrs = Inr T"
  shows "has_shape T (sizes_input_batch mb) (win_nlat mb) (win_nlon mb)
           (length (declared_order names))"
    and "s < sizes_input_batch mb \<Longrightarrow> r < win_nlat mb \<Longrightarrow> c < win_nlon mb \<Longrightarrow>
         v < length (declared_order names) \<Longrightarrow>
           T ! s ! r ! c ! v =
             the (map_of (batch_vars mb) (declared_order names ! v)) ! s ! r ! c"
proof -
  have "to_array (sizes_input_batch mb) (win_nlat mb) (win_nlon mb)
          (map (\<lambda>x. (x, the (map_of (batch_vars mb) x))) names) = Inr T"
    using ct getitems_Inr [OF gs] by (simp add: conv_tensor_def)
  from to_array_Inr [OF this]
  show "has_shape T (sizes_input_batch mb) (win_nlat mb) (win_nlon mb)
           (length (declared_order names))"
    and "s < sizes_input_batch mb \<Longrightarrow> r < win_nlat mb \<Longrightarrow> c < win_nlon mb \<Longrightarrow>
         v < length (declared_order names) \<Longrightarrow>
           T ! s ! r ! c ! v =
             the (map_of (batch_vars mb) (declared_order names ! v)) ! s ! r ! c"
    by simp_all
qed

lemma sub_tensor_Inr:
  assumes gs: "getitems_sub mb (sub halo nlons nlats) names = Inr arrs"
    and st: "sub_tensor mb (sub halo nlons nlats) arrs = Inr T"
    and win: "win_nlat mb = nat nlats" "win_nlon mb = nat nlons"
    and len: "\<forall>x ws. map_of (batch_vars mb) x = Some ws \<longrightarrow> length ws = sizes_input_batch mb"
  shows "has_shape T (sizes_input_batch mb) (nat (nlats - 2 * halo)) (nat (nlons - 2 * halo))
           (length (declared_order names))"
    and "s < sizes_input_batch mb \<Longrightarrow> r < nat (nlats - 2 * halo) \<Longrightarrow>
         c < nat (nlons - 2 * halo) \<Longrightarrow> v < length (declared_order names) \<Longrightarrow>
           T ! s ! r ! c ! v =
             the (map_of (batch_vars mb) (declared_order names ! v)) ! s
               ! (nat halo + r) ! (nat halo + c)"
proof -
  let ?s = "sub halo nlons nlats"
  have nonempty: "names \<noteq> []"
  proof
    assume "names = []"
    then have "arrs = []"
      using gs by simp
    then show False
      using st by (simp add: sub_tensor_def to_array_def)
  qed
  obtain cs rs where
    cs: "norm_indices (win_nlon mb) (sub_nlon ?s) = Inr cs"
    and rs: "norm_indices (win_nlat mb) (sub_nlat ?s) = Inr rs"
    and arrs: "arrs = map (\<lambda>x. (x, map (\<lambda>w. map (\<lambda>r. map (\<lambda>c. w ! r ! c) cs) rs)
                                          (the (map_of (batch_vars mb) x)))) names"
    using getitems_sub_Inr [OF gs nonempty] by blast
  have cs': "norm_indices (nat nlons) (range2 halo (nlons - halo)) = Inr cs"
    using cs win by (simp add: sub_def)
  have rs': "norm_indices (nat nlats) (range2 halo (nlats - halo)) = Inr rs"
    using rs win by (simp add: sub_def)
  note rs_len = sub_indices(1) [OF rs'] and rs_nth = sub_indices(2) [OF rs']
  note cs_len = sub_indices(1) [OF cs'] and cs_nth = sub_indices(2) [OF cs']
  let ?f = "\<lambda>x. map (\<lambda>w. map (\<lambda>r. map (\<lambda>c. w ! r ! c) cs) rs) (the (map_of (batch_vars mb) x))"
  have ta: "to_array (sizes_input_batch mb) (nat (nlats - 2 * halo)) (nat (nlons - 2 * halo))
              (map (\<lambda>x. (x, ?f x)) names) = Inr T"
    using st arrs by (simp add: sub_tensor_def sub_lengths)
  show "has_shape T (sizes_input_batch mb) (nat (nlats - 2 * halo)) (nat (nlons - 2 * halo))
           (length (declared_order names))"
    using ta by (rule to_array_Inr(1))
  show "T ! s ! r ! c ! v =
             the (map_of (batch_vars mb) (declared_order names ! v)) ! s
               ! (nat halo + r) ! (nat halo + c)"
    if s: "s < sizes_input_batch mb" and r: "r < nat (nlats - 2 * halo)"
      and c: "c < nat (nlons - 2 * halo)" and v: "v < length (declared_order names)"
  proof -
    let ?x = "declared_order names ! v"
    have "?x \<in> set names"
      using v set_declared_order [of names] nth_mem by blast
    then obtain ws where ws: "map_of (batch_vars mb) ?x = Some ws"
      using getitems_sub_present [OF gs] by blast
    then have lws: "length ws = sizes_input_batch mb"
      using len by blast
    have "T ! s ! r ! c ! v = ?f ?x ! s ! r ! c"
      using to_array_Inr(2) [OF ta s r c v] .
    also have "\<dots> = ws ! s ! (rs ! r) ! (cs ! c)"
      using ws lws s r c rs_len cs_len by simp
    also have "\<dots> = ws ! s ! (nat halo + r) ! (nat halo + c)"
      using rs_nth [of r] cs_nth [of c] r c rs_len cs_len by simp
    finally show ?thesis
      using ws by simp
  qed
qed

lemma py_range_in_bounds_positive_step:
  assumes r: "py_range start (int n) step = Inr xs"
    and ix: "norm_indices n xs = Inr ks"
    and ne: "xs \<noteq> []"
  shows "0 < step"
proof (rule ccontr)
  assume "\<not> 0 < step"
  moreover have "step \<noteq> 0"
    using r by (auto simp: py_range_def)
  ultimately have neg: "step < 0"
    by simp
  have xs: "xs = map (\<lambda>k. start + int k * step) [0..<range_length start (int n) step]"
    using r neg by (simp add: py_range_def)
  with ne have len: "0 < range_length start (int n) step"
    by (cases "range_length start (int n) step") auto
  then have "int n < start + int 0 * step"
    using range_length_neg_iff [OF neg, of 0 start "int n"] by simp
  moreover have "start \<in> set xs"
    using len unfolding xs by (auto simp: image_iff intro!: bexI [of _ 0])
  then have "start < int n"
    using norm_indices_Inr_map [OF ix] by blast
  ultimately show False
    by simp
qed

lemma dropna_size_le: "sizes_input_batch (dropna bs) \<le> sizes_input_batch bs"
proof -
  have "length (filter P [0..<n]) \<le> n" for P and n :: nat
    using length_filter_le [of P "[0..<n]"] by simp
  then show ?thesis
    by (simp add: dropna_def isel_input_batch_nat_def)
qed

lemma build_batch_nonempty_stride:
  assumes build: "build_batch ds nlons nlats halo = Inr batch"
    and ne: "0 < sizes_input_batch batch"
  shows "2 * halo < nlats \<and> 2 * halo < nlons"
proof -
  obtain c where c: "candidates ds nlons nlats halo = Inr c" and batch: "batch = dropna c"
    using build by (auto simp: build_batch_def split: sum.splits)
  obtain lat lon lat_ix lon_ix where
    lat: "nlat_range nlats (sizes_nlat ds) halo = Inr lat"
    and lon: "nlon_range nlons (sizes_nlon ds) halo = Inr lon"
    and lat_ix: "norm_indices (sizes_nlat ds) lat = Inr lat_ix"
    and lon_ix: "norm_indices (sizes_nlon ds) lon = Inr lon_ix"
    and st: "c = stacked ds (nat nlats) (nat nlons) lat_ix lon_ix"
    using candidates_Inr [OF c] by blast
  have "0 < sizes_input_batch c"
    using ne dropna_size_le [of c] by (simp add: batch)
  then have "0 < length lat_ix * length lon_ix"
    by (simp add: st stacked_def)
  then have "lat \<noteq> []" "lon \<noteq> []"
    using norm_indices_Inr [OF lat_ix] norm_indices_Inr [OF lon_ix] by auto
  then have "0 < nlats - 2 * halo" "0 < nlons - 2 * halo"
    using py_range_in_bounds_positive_step [OF lat [unfolded nlat_range_def] lat_ix]
      py_range_in_bounds_positive_step [OF lon [unfolded nlon_range_def] lon_ix]
    by simp_all
  then show ?thesis
    by simp
qed

lemma yielded_nonempty:
  assumes "batch_generator batch (int b) = Some (ys, e)" "0 < b" "mb \<in> set ys"
  shows "0 < sizes_input_batch batch"
proof -
  have "ys = map (\<lambda>k. isel_input_batch_nat batch [k * b..<k * b + b])
                 [0..<(sizes_input_batch batch - 1) div b]"
    using assms(1) batch_generator_from_run [OF assms(2), of batch 0]
    by (simp add: batch_generator_def)
  then have "0 < (sizes_input_batch batch - 1) div b"
    using assms(3) by (cases "(sizes_input_batch batch - 1) div b") auto
  then show ?thesis
    by (cases "sizes_input_batch batch") auto
qed

lemma shuffle_in_range:
  assumes "np_random_shuffle (range2 0 (int n)) rnds"
  shows "length rnds = n \<and> (\<forall>i \<in> set rnds. 0 \<le> i \<and> i < int n)"
proof -
  have m: "mset rnds = mset (range2 0 (int n))"
    using assms by (simp add: np_random_shuffle_def)
  have "length rnds = length (range2 0 (int n))"
    using m by (rule mset_eq_length)
  moreover have "set rnds = set (range2 0 (int n))"
    using m by (rule mset_eq_setD)
  ultimately show ?thesis
    by (auto simp: range2_def)
qed

lemma shuffled_batch_succeeds:
  assumes "np_random_shuffle (range2 0 (int (sizes_input_batch batch))) rnds"
  shows "shuffled_batch batch rnds = Inr (isel_input_batch_nat batch (map nat rnds))"
  using shuffle_in_range [OF assms]
  by (simp add: shuffled_batch_def isel_input_batch_def norm_indices_in_range)

lemma shuffled_batch_Inr:
  assumes "np_random_shuffle (range2 0 (int (sizes_input_batch batch0))) rnds"
    and "shuffled_batch batch0 rnds = Inr batch"
  shows "sizes_input_batch batch = sizes_input_batch batch0 \<and>
         win_nlat batch = win_nlat batch0 \<and> win_nlon batch = win_nlon batch0"
proof -
  have "batch = isel_input_batch_nat batch0 (map nat rnds)"
    using shuffled_batch_succeeds [OF assms(1)] assms(2) by simp
  then show ?thesis
    using shuffle_in_range [OF assms(1)] by (simp add: isel_input_batch_nat_def)
qed

text \<open>
  Claim C3. Take a patch collection built with window \<open>nlats \<times> nlons\<close> and halo
  \<open>halo\<close>, any arrangement \<open>rnds\<close> of its patch positions that the shuffle leaves, the
  collection reordered by it, any mini-batch the generator yields from the reordered
  collection for a batch size \<open>b\<close>, and any scenario for which the three tensors of
  that mini-batch are built. The window is then wider than twice the halo along both
  axes, and all three tensors have \<open>b\<close> samples. The convolution tensor keeps the full
  window, \<open>nlats\<close> rows by \<open>nlons\<close> columns; the dense and the target tensor have
  \<open>nlats - 2 * halo\<close> rows and \<open>nlons - 2 * halo\<close> columns, and their cell \<open>(r, c)\<close>
  is the window's cell \<open>(halo + r, halo + c)\<close>, which trims \<open>halo\<close> points from every
  edge. The last axis of each tensor runs over the variables of its group, in the order
  the scenario declares them.
\<close>

theorem batch_tensor_shapes:
  assumes build: "build_batch ds nlons nlats halo = Inr batch0"
    and rnds: "np_random_shuffle (range2 0 (int (sizes_input_batch batch0))) rnds"
    and shuffled: "shuffled_batch batch0 rnds = Inr batch"
    and run: "batch_generator batch (int b) = Some (ys, e)"
    and b: "0 < b"
    and mb: "mb \<in> set ys"
    and tens: "batch_tensors mb sc (sub halo nlons nlats) = Inr t"
  shows "2 * halo < nlats \<and> 2 * halo < nlons \<and>
         has_shape (t_conv t) b (nat nlats) (nat nlons) (length (declared_order (conv_var sc))) \<and>
         has_shape (t_input t) b (nat (nlats - 2 * halo)) (nat (nlons - 2 * halo))
           (length (declared_order (input_var sc))) \<and>
         has_shape (t_target t) b (nat (nlats - 2 * halo)) (nat (nlons - 2 * halo))
           (length (declared_order (target sc))) \<and>
         (\<forall>s < b. \<forall>r < nat nlats. \<forall>c < nat nlons.
            (\<forall>v < length (declared_order (conv_var sc)).
               t_conv t ! s ! r ! c ! v =
                 the (map_of (batch_vars mb) (declared_order (conv_var sc) ! v)) ! s ! r ! c)) \<and>
         (\<forall>s < b. \<forall>r < nat (nlats - 2 * halo). \<forall>c < nat (nlons - 2 * halo).
            (\<forall>v < length (declared_order (input_var sc)).
               t_input t ! s ! r ! c ! v =
                 the (map_of (batch_vars mb) (declared_order (input_var sc) ! v)) ! s
                   ! (nat halo + r) ! (nat halo + c)) \<and>
            (\<forall>v < length (declared_order (target sc)).
               t_target t ! s ! r ! c ! v =
                 the (map_of (batch_vars mb) (declared_order (target sc) ! v)) ! s
                   ! (nat halo + r) ! (nat halo + c)))"
proof -
  let ?s = "sub halo nlons nlats"
  note same = shuffled_batch_Inr [OF rnds shuffled]
  have size: "sizes_input_batch mb = b"
    and win: "win_nlat mb = nat nlats" "win_nlon mb = nat nlons"
    using yielded_batch [OF run b mb] build_batch_win [OF build] same by simp_all
  have len: "\<forall>x ws. map_of (batch_vars mb) x = Some ws \<longrightarrow> length ws = sizes_input_batch mb"
    using yielded_batch_vars [OF run b mb] size by simp
  obtain cs "is" ts where
    cs: "getitems mb (conv_var sc) = Inr cs"
    and "is": "getitems_sub mb ?s (input_var sc) = Inr is"
    and ts: "getitems_sub mb ?s (target sc) = Inr ts"
    and tc: "conv_tensor mb cs = Inr (t_conv t)"
    and ti: "sub_tensor mb ?s is = Inr (t_input t)"
    and tt: "sub_tensor mb ?s ts = Inr (t_target t)"
    using tens by (auto simp: batch_tensors_def split: sum.splits)
  note conv = conv_tensor_Inr [OF cs tc, unfolded size win]
  note inp = sub_tensor_Inr [OF "is" ti win len, unfolded size]
  note tar = sub_tensor_Inr [OF ts tt win len, unfolded size]
  have "0 < sizes_input_batch batch0"
    using yielded_nonempty [OF run b mb] same by simp
  with build have stride: "2 * halo < nlats \<and> 2 * halo < nlons"
    by (rule build_batch_nonempty_stride)
  show ?thesis
    using stride conv(1) inp(1) tar(1) conv(2) inp(2) tar(2) by blast
qed

theorem batch_tensor_shapes_witness:
  "build_batch example_ds 3 3 1 = Inr example_batch \<and>
   np_random_shuffle (range2 0 (int (sizes_input_batch example_batch))) [1, 0] \<and>
   shuffled_batch example_batch [1, 0] = Inr example_shuffled \<and>
   batch_generator example_shuffled (int 1) = Some ([example_minibatch], None) \<and>
   batch_tensors example_minibatch example_sc (sub 1 3 3) = Inr example_tensors \<and>
   has_shape (t_conv example_tensors) 1 3 3 1 \<and>
   has_shape (t_input example_tensors) 1 1 1 2 \<and>
   has_shape (t_target example_tensors) 1 1 1 1"
proof -
  have build: "build_batch example_ds 3 3 1 = Inr example_batch"
    by code_simp
  have rnds: "np_random_shuffle (range2 0 (int (sizes_input_batch example_batch))) [1, 0]"
    by (simp add: np_random_shuffle_def range2_def example_batch_def upt_rec)
  have shuffled: "shuffled_batch example_batch [1, 0] = Inr example_shuffled"
    by code_simp
  have run: "batch_generator example_shuffled (int 1) = Some ([example_minibatch], None)"
    by code_simp
  have tens: "batch_tensors example_minibatch example_sc (sub 1 3 3) = Inr example_tensors"
    by code_simp
  have order: "declared_order (conv_var example_sc) = [''SSH'']"
    "declared_order (input_var example_sc) = [''U'', ''SSH'']"
    "declared_order (target example_sc) = [''U'']"
    by (simp_all add: example_sc_def)
  from batch_tensor_shapes [where mb = example_minibatch, OF build rnds shuffled run _ _ tens]
    order
  have "has_shape (t_conv example_tensors) 1 3 3 1 \<and>
        has_shape (t_input example_tensors) 1 1 1 2 \<and>
        has_shape (t_target example_tensors) 1 1 1 1"
    by (simp add: numeral_2_eq_2)
  with build rnds shuffled run tens show ?thesis
    by simp
qed

subsection \<open>The prediction cell\<close>

lemma cell_test_tensors_Inr:
  assumes "cell_test_tensors nb = Inr nb1"
  shows "\<exists>bt t. nb_batch_test nb = Some bt \<and>
               batch_tensors bt (nb_sc nb) (nb_sub nb) = Inr t \<and>
               nb1 = nb \<lparr> nb_test_conv := Some (t_conv t),
                          nb_test_input := Some (t_input t),
                          nb_test_target := Some (t_target t) \<rparr>"
  using assms unfolding cell_test_tensors_def
  by (auto split: option.splits sum.splits)

lemma batch_tensors_Inr:
  assumes "batch_tensors bs sc s = Inr t"
  shows "\<exists>cs is. getitems bs (conv_var sc) = Inr cs \<and>
                 getitems_sub bs s (input_var sc) = Inr is \<and>
                 conv_tensor bs cs = Inr (t_conv t) \<and>
                 sub_tensor bs s is = Inr (t_input t)"
  using assms unfolding batch_tensors_def
  by (auto split: sum.splits)

lemma cell_batch_predict_Inr:
  assumes "cell_batch_predict ds_predict nb = Inr nb'"
  shows "\<exists>bp. nb' = nb \<lparr> nb_batch_predict := Some bp \<rparr>"
  using assms unfolding cell_batch_predict_def
  by (auto split: sum.splits)

lemma cell_predict_inputs_ignores_batch_predict:
  "cell_predict_inputs (nb \<lparr> nb_batch_predict := bp \<rparr>) =
     map_sum id (\<lambda>s. s \<lparr> nb_batch_predict := bp \<rparr>) (cell_predict_inputs nb)"
  unfolding cell_predict_inputs_def
  by (simp split: option.splits sum.splits)

text \<open>
  Claim C5. The prediction cell reads \<^verbatim>\<open>batch_test\<close>. After the test cell has built its
  tensors and whatever prediction slice has been batched into \<^verbatim>\<open>batch_predict\<close>, the
  prediction cell succeeds, \<^verbatim>\<open>predict_conv\<close> is \<^verbatim>\<open>test_conv\<close> and \<^verbatim>\<open>predict_input\<close>
  is \<^verbatim>\<open>test_input\<close>, and both stay the same when \<^verbatim>\<open>batch_predict\<close> is replaced by
  anything else (or is unassigned).
\<close>

theorem predict_inputs_built_from_batch_test:
  assumes test: "cell_test_tensors nb = Inr nb1"
    and pred: "cell_batch_predict ds_predict nb1 = Inr nb2"
  shows "\<exists>nb3. cell_predict_inputs nb2 = Inr nb3 \<and>
               nb_predict_conv nb3 = nb_test_conv nb1 \<and>
               nb_predict_input nb3 = nb_test_input nb1 \<and>
               (\<forall>bp. \<exists>nb3'. cell_predict_inputs (nb2 \<lparr> nb_batch_predict := bp \<rparr>) = Inr nb3' \<and>
                       nb_predict_conv nb3' = nb_predict_conv nb3 \<and>
                       nb_predict_input nb3' = nb_predict_input nb3)"
proof -
  obtain bt t where bt: "nb_batch_test nb = Some bt"
    and t: "batch_tensors bt (nb_sc nb) (nb_sub nb) = Inr t"
    and nb1: "nb1 = nb \<lparr> nb_test_conv := Some (t_conv t),
                          nb_test_input := Some (t_input t),
                          nb_test_target := Some (t_target t) \<rparr>"
    using cell_test_tensors_Inr [OF test] by blast
  obtain cs "is" where cs: "getitems bt (conv_var (nb_sc nb)) = Inr cs"
    and "is": "getitems_sub bt (nb_sub nb) (input_var (nb_sc nb)) = Inr is"
    and tc: "conv_tensor bt cs = Inr (t_conv t)"
    and ti: "sub_tensor bt (nb_sub nb) is = Inr (t_input t)"
    using batch_tensors_Inr [OF t] by blast
  obtain bp where nb2: "nb2 = nb1 \<lparr> nb_batch_predict := Some bp \<rparr>"
    using cell_batch_predict_Inr [OF pred] by blast
  have run: "cell_predict_inputs (nb1 \<lparr> nb_batch_predict := q \<rparr>) =
               Inr (nb1 \<lparr> nb_batch_predict := q, nb_predict_conv := Some (t_conv t),
                          nb_predict_input := Some (t_input t) \<rparr>)" for q
    unfolding cell_predict_inputs_def nb1 using bt cs "is" tc ti by simp
  show ?thesis
    unfolding nb2 by (simp add: run) (simp add: nb1)
qed

theorem predict_inputs_built_from_batch_test_witness:
  "(case cell_test_tensors example_nb of
      Inl e \<Rightarrow> False
    | Inr nb1 \<Rightarrow>
        (case cell_batch_predict example_ds_predict nb1 of
           Inl e \<Rightarrow> False
         | Inr nb2 \<Rightarrow>
             (case cell_predict_inputs nb2 of
                Inl e \<Rightarrow> False
              | Inr nb3 \<Rightarrow>
                  nb_predict_conv nb3 = nb_test_conv nb1 \<and>
                  nb_predict_input nb3 = nb_test_input nb1)))"
proof -
  have "\<not> isl (cell_test_tensors example_nb)"
    by code_simp
  then obtain nb1 where test: "cell_test_tensors example_nb = Inr nb1"
    by (cases "cell_test_tensors example_nb") auto
  have "\<not> isl (case cell_test_tensors example_nb of
                  Inl e \<Rightarrow> Inl e | Inr nb1 \<Rightarrow> cell_batch_predict example_ds_predict nb1)"
    by code_simp
  then obtain nb2 where pred: "cell_batch_predict example_ds_predict nb1 = Inr nb2"
    unfolding test by (cases "cell_batch_predict example_ds_predict nb1") auto
  from predict_inputs_built_from_batch_test [OF test pred] test pred show ?thesis
    by auto
qed

subsection \<open>Reassembly of the predictions\<close>









section \<open>Properties of the preparation notebook\<close>

subsection \<open>Dictionaries and fields\<close>

lemma map_of_setitem: "map_of (setitem k v ps) = (map_of ps)(k \<mapsto> v)"
  by (induction ps) (auto simp: fun_eq_iff)

lemma keys_setitem: "set (map fst (setitem k v ps)) = insert k (set (map fst ps))"
  by (induction ps) auto

lemma distinct_setitem:
  "distinct (map fst ps) \<Longrightarrow> distinct (map fst (setitem k v ps))"
proof (induction ps)
  case Nil
  then show ?case by simp
next
  case (Cons p ps)
  then show ?case
    using keys_setitem [of k v ps] by auto
qed

lemma shape_of_map_field: "shape_of (map_field f a) = shape_of a"
  by (simp add: shape_of_def field.map_comp o_def)

lemma cells_map_field: "cells (map_field f a) = map f (cells a)"
  by (cases a) (simp_all add: map_concat)

lemma length_eq_of_skeleton:
  assumes "map (\<lambda>v. ()) xs = map (\<lambda>v. ()) ys"
  shows "length xs = length ys"
  using assms by (metis length_map)

lemma concat_map2:
  assumes "map (map (\<lambda>v. ())) a = map (map (\<lambda>v. ())) b"
  shows "concat (map2 (map2 f) a b) = map2 f (concat a) (concat b)"
  using assms
proof (induction a arbitrary: b)
  case Nil
  then show ?case by simp
next
  case (Cons x a)
  then obtain y b' where b: "b = y # b'"
    by (cases b) auto
  have "length x = length y"
    using Cons.prems b by (auto intro: length_eq_of_skeleton)
  then show ?case
    using Cons b by (simp add: zip_append)
qed

lemma skeleton_map2:
  assumes "map (\<lambda>v. ()) xs = map (\<lambda>v. ()) ys"
  shows "map (\<lambda>v. ()) (map2 f xs ys) = map (\<lambda>v. ()) ys"
proof -
  have "length xs = length ys"
    using assms by (rule length_eq_of_skeleton)
  then show ?thesis
    by (induction xs ys rule: list_induct2) simp_all
qed

lemma skeleton2_map2:
  assumes "map (map (\<lambda>v. ())) a = map (map (\<lambda>v. ())) b"
  shows "map (map (\<lambda>v. ())) (map2 (map2 f) a b) = map (map (\<lambda>v. ())) b"
  using assms
proof (induction a arbitrary: b)
  case Nil
  then show ?case by simp
next
  case (Cons x a)
  then obtain y b' where b: "b = y # b'"
    by (cases b) auto
  then show ?case
    using Cons by (simp add: skeleton_map2 del: map_map)
qed

lemma skeleton3_map2:
  assumes "map (map (map (\<lambda>v. ()))) a = map (map (map (\<lambda>v. ()))) b"
  shows "map (map (map (\<lambda>v. ()))) (map2 (map2 (map2 f)) a b) = map (map (map (\<lambda>v. ()))) b"
  using assms
proof (induction a arbitrary: b)
  case Nil
  then show ?case by simp
next
  case (Cons x a)
  then obtain y b' where b: "b = y # b'"
    by (cases b) auto
  then show ?case
    using Cons by (simp add: skeleton2_map2 del: map_map)
qed

lemma skeleton_forget:
  assumes "map (map (map (\<lambda>v. ()))) a = map (map (map (\<lambda>v. ()))) b"
  shows "map (map (\<lambda>r. ())) a = map (map (\<lambda>r. ())) b"
proof -
  have "map (map (\<lambda>r. ())) (map (map (map (\<lambda>v. ()))) a) =
        map (map (\<lambda>r. ())) (map (map (map (\<lambda>v. ()))) b)"
    using assms by simp
  then show ?thesis
    by (simp add: o_def)
qed

lemma skeleton_concat:
  assumes "map (map (map (\<lambda>v. ()))) a = map (map (map (\<lambda>v. ()))) b"
  shows "map (map (\<lambda>v. ())) (concat a) = map (map (\<lambda>v. ())) (concat b)"
proof -
  have "concat (map (map (map (\<lambda>v. ()))) a) = concat (map (map (map (\<lambda>v. ()))) b)"
    using assms by simp
  then show ?thesis
    by (simp add: map_concat)
qed

lemma zip_field_Inr:
  assumes "zip_field f a b = Inr y"
  shows "shape_of a = shape_of b \<and> shape_of y = shape_of b \<and>
         cells y = map2 f (cells a) (cells b)"
proof (cases a)
  case (Static ga)
  then obtain gb where b: "b = Static gb"
    using assms by (cases b) auto
  have sk: "map (map (\<lambda>v. ())) ga = map (map (\<lambda>v. ())) gb"
    and y: "y = Static (map2 (map2 f) ga gb)"
    using assms Static b by (auto simp: shape_of_def split: if_splits)
  show ?thesis
    using sk by (simp add: Static b y shape_of_def skeleton2_map2 concat_map2 del: map_map)
next
  case (Timed ga)
  then obtain gb where b: "b = Timed gb"
    using assms by (cases b) auto
  have sk: "map (map (map (\<lambda>v. ()))) ga = map (map (map (\<lambda>v. ()))) gb"
    and y: "y = Timed (map2 (map2 (map2 f)) ga gb)"
    using assms Timed b by (auto simp: shape_of_def split: if_splits)
  have "concat (concat (map2 (map2 (map2 f)) ga gb)) =
          concat (map2 (map2 f) (concat ga) (concat gb))"
    using concat_map2 [of ga gb "map2 f"] skeleton_forget [OF sk] by simp
  also have "\<dots> = map2 f (concat (concat ga)) (concat (concat gb))"
    using skeleton_concat [OF sk] by (rule concat_map2)
  finally show ?thesis
    using sk by (simp add: Timed b y shape_of_def skeleton3_map2 del: map_map)
qed

subsection \<open>The grid augmenter\<close>

lemma assign_like_Inr:
  assumes "assign_like xu k x ds = Inr ds'"
  shows "shape_of x = shape_of xu \<and> ds' = setitem k x ds"
  using assms by (simp add: assign_like_def split: if_splits)

lemma add_grid_Inr:
  assumes "add_grid num ds = Inr ds'"
  shows "\<exists>lats lons DX DY y z.
           map_of ds ''YU'' = Some lats \<and> map_of ds ''XU'' = Some lons \<and>
           map_of ds ''DXT'' = Some DX \<and> map_of ds ''DYT'' = Some DY \<and>
           zip_field (Y num) lats lons = Inr y \<and>
           zip_field (Z num) lats lons = Inr z \<and>
           shape_of lats = shape_of lons \<and> shape_of DX = shape_of lons \<and>
           shape_of DY = shape_of lons \<and>
           ds' = setitem ''dy''
                   (map_field (\<lambda>dy. delta num dy (np_mean num (cells DY)) (np_std num (cells DY))) DY)
                   (setitem ''dx''
                      (map_field (\<lambda>dx. delta num dx (np_mean num (cells DX)) (np_std num (cells DX))) DX)
                      (setitem ''Z'' z (setitem ''Y'' y
                         (setitem ''X'' (map_field (X num) lats) ds))))"
  using assms unfolding add_grid_def getattr_def Let_def
  by (auto split: option.splits sum.splits dest!: assign_like_Inr simp: shape_of_map_field)

text \<open>
  Claim C10, as the function has it. When \<^verbatim>\<open>add_grid\<close> returns, the dataset holds
  under the names \<^verbatim>\<open>X\<close>, \<^verbatim>\<open>Y\<close>, \<^verbatim>\<open>Z\<close>, \<^verbatim>\<open>dx\<close> and \<^verbatim>\<open>dy\<close> five fields of the shape
  of \<^verbatim>\<open>XU\<close>, whose cells are, cell by cell, \<open>sin (radians lat)\<close>,
  \<open>cos (radians lat) * sin (radians lon)\<close>, \<open>(- cos (radians lat)) * cos (radians lon)\<close>,
  \<open>(DXT - mean DXT) / std DXT\<close> and \<open>(DYT - mean DYT) / std DYT\<close>, with \<open>lat\<close> read from
  \<^verbatim>\<open>YU\<close> and \<open>lon\<close> from \<^verbatim>\<open>XU\<close>. Every field under another name is what it was, and
  the names of the result are those of the input and these five. A field that was
  already stored under one of the five names is replaced.
\<close>

theorem add_grid_attaches_fields:
  assumes "add_grid num ds = Inr ds'"
  shows "\<exists>lats lons DX DY x y z dX dY.
           map_of ds ''YU'' = Some lats \<and> map_of ds ''XU'' = Some lons \<and>
           map_of ds ''DXT'' = Some DX \<and> map_of ds ''DYT'' = Some DY \<and>
           map_of ds' ''X'' = Some x \<and> map_of ds' ''Y'' = Some y \<and>
           map_of ds' ''Z'' = Some z \<and> map_of ds' ''dx'' = Some dX \<and>
           map_of ds' ''dy'' = Some dY \<and>
           shape_of x = shape_of lons \<and> shape_of y = shape_of lons \<and>
           shape_of z = shape_of lons \<and> shape_of dX = shape_of lons \<and>
           shape_of dY = shape_of lons \<and>
           cells x = map (\<lambda>lat. np_sin num (np_radians num lat)) (cells lats) \<and>
           cells y = map2 (\<lambda>lat lon. f_mul num (np_cos num (np_radians num lat))
                                             (np_sin num (np_radians num lon)))
                          (cells lats) (cells lons) \<and>
           cells z = map2 (\<lambda>lat lon. f_mul num (f_neg num (np_cos num (np_radians num lat)))
                                             (np_cos num (np_radians num lon)))
                          (cells lats) (cells lons) \<and>
           cells dX = map (\<lambda>v. f_div num (f_sub num v (np_mean num (cells DX)))
                                           (np_std num (cells DX))) (cells DX) \<and>
           cells dY = map (\<lambda>v. f_div num (f_sub num v (np_mean num (cells DY)))
                                           (np_std num (cells DY))) (cells DY) \<and>
           (\<forall>k. k \<notin> {''X'', ''Y'', ''Z'', ''dx'', ''dy''} \<longrightarrow> map_of ds' k = map_of ds k) \<and>
           set (map fst ds') = set (map fst ds) \<union> {''X'', ''Y'', ''Z'', ''dx'', ''dy''}"
proof -
  obtain lats lons DX DY y z where
    look: "map_of ds ''YU'' = Some lats" "map_of ds ''XU'' = Some lons"
      "map_of ds ''DXT'' = Some DX" "map_of ds ''DYT'' = Some DY"
    and y: "zip_field (Y num) lats lons = Inr y"
    and z: "zip_field (Z num) lats lons = Inr z"
    and shapes: "shape_of lats = shape_of lons" "shape_of DX = shape_of lons"
      "shape_of DY = shape_of lons"
    and ds': "ds' = setitem ''dy''
                   (map_field (\<lambda>dy. delta num dy (np_mean num (cells DY)) (np_std num (cells DY))) DY)
                   (setitem ''dx''
                      (map_field (\<lambda>dx. delta num dx (np_mean num (cells DX)) (np_std num (cells DX))) DX)
                      (setitem ''Z'' z (setitem ''Y'' y
                         (setitem ''X'' (map_field (X num) lats) ds))))"
    using add_grid_Inr [OF assms] by blast
  let ?x = "map_field (X num) lats"
  let ?dX = "map_field (\<lambda>dx. delta num dx (np_mean num (cells DX)) (np_std num (cells DX))) DX"
  let ?dY = "map_field (\<lambda>dy. delta num dy (np_mean num (cells DY)) (np_std num (cells DY))) DY"
  have stored: "map_of ds' ''X'' = Some ?x" "map_of ds' ''Y'' = Some y" "map_of ds' ''Z'' = Some z"
    "map_of ds' ''dx'' = Some ?dX" "map_of ds' ''dy'' = Some ?dY"
    by (simp_all add: ds' map_of_setitem)
  have shp: "shape_of ?x = shape_of lons" "shape_of y = shape_of lons" "shape_of z = shape_of lons"
    "shape_of ?dX = shape_of lons" "shape_of ?dY = shape_of lons"
    using zip_field_Inr [OF y] zip_field_Inr [OF z] shapes by (simp_all add: shape_of_map_field)
  have cx: "cells ?x = map (\<lambda>lat. np_sin num (np_radians num lat)) (cells lats)"
    by (simp add: cells_map_field X_def)
  have cy: "cells y = map2 (\<lambda>lat lon. f_mul num (np_cos num (np_radians num lat))
                                             (np_sin num (np_radians num lon)))
                          (cells lats) (cells lons)"
    using zip_field_Inr [OF y] by (simp add: Y_def)
  have cz: "cells z = map2 (\<lambda>lat lon. f_mul num (f_neg num (np_cos num (np_radians num lat)))
                                             (np_cos num (np_radians num lon)))
                          (cells lats) (cells lons)"
    using zip_field_Inr [OF z] by (simp add: Z_def)
  have cdx: "cells ?dX = map (\<lambda>v. f_div num (f_sub num v (np_mean num (cells DX)))
                                           (np_std num (cells DX))) (cells DX)"
    and cdy: "cells ?dY = map (\<lambda>v. f_div num (f_sub num v (np_mean num (cells DY)))
                                           (np_std num (cells DY))) (cells DY)"
    by (simp_all add: cells_map_field delta_def)
  have others: "\<forall>k. k \<notin> {''X'', ''Y'', ''Z'', ''dx'', ''dy''} \<longrightarrow> map_of ds' k = map_of ds k"
    by (simp add: ds' map_of_setitem)
  have names: "set (map fst ds') = set (map fst ds) \<union> {''X'', ''Y'', ''Z'', ''dx'', ''dy''}"
    unfolding ds' keys_setitem by blast
  show ?thesis
    using look stored shp cx cy cz cdx cdy others names by blast
qed

theorem add_grid_attaches_fields_witness:
  "add_grid example_numerics
     [(''XU'', Static [[0, 90]]), (''YU'', Static [[0, 0]]),
      (''DXT'', Static [[1, 3]]), (''DYT'', Static [[2, 6]])] =
   Inr [(''XU'', Static [[0, 90]]), (''YU'', Static [[0, 0]]),
        (''DXT'', Static [[1, 3]]), (''DYT'', Static [[2, 6]]),
        (''X'', Static [[0, 0]]), (''Y'', Static [[0, 1]]), (''Z'', Static [[- 1, 0]]),
        (''dx'', Static [[- 1, 1]]), (''dy'', Static [[- 1, 1]])] \<and>
   set (map fst [(''XU'', Static [[0, 90 :: real]]), (''YU'', Static [[0, 0]]),
        (''DXT'', Static [[1, 3]]), (''DYT'', Static [[2, 6]]),
        (''X'', Static [[0, 0]]), (''Y'', Static [[0, 1]]), (''Z'', Static [[- 1, 0]]),
        (''dx'', Static [[- 1, 1]]), (''dy'', Static [[- 1, 1]])]) =
   {''XU'', ''YU'', ''DXT'', ''DYT''} \<union> {''X'', ''Y'', ''Z'', ''dx'', ''dy''}"
proof -
  have run: "add_grid example_numerics
     [(''XU'', Static [[0, 90]]), (''YU'', Static [[0, 0]]),
      (''DXT'', Static [[1, 3]]), (''DYT'', Static [[2, 6]])] =
   Inr [(''XU'', Static [[0, 90]]), (''YU'', Static [[0, 0]]),
        (''DXT'', Static [[1, 3]]), (''DYT'', Static [[2, 6]]),
        (''X'', Static [[0, 0]]), (''Y'', Static [[0, 1]]), (''Z'', Static [[- 1, 0]]),
        (''dx'', Static [[- 1, 1]]), (''dy'', Static [[- 1, 1]])]"
    by (simp add: add_grid_def getattr_def example_numerics_def X_def Y_def Z_def delta_def
        assign_like_def shape_of_def Let_def)
  from add_grid_attaches_fields [OF run]
  have "set (map fst [(''XU'', Static [[0, 90 :: real]]), (''YU'', Static [[0, 0]]),
        (''DXT'', Static [[1, 3]]), (''DYT'', Static [[2, 6]]),
        (''X'', Static [[0, 0]]), (''Y'', Static [[0, 1]]), (''Z'', Static [[- 1, 0]]),
        (''dx'', Static [[- 1, 1]]), (''dy'', Static [[- 1, 1]])]) =
     set (map fst [(''XU'', Static [[0, 90 :: real]]), (''YU'', Static [[0, 0]]),
      (''DXT'', Static [[1, 3]]), (''DYT'', Static [[2, 6]])]) \<union>
       {''X'', ''Y'', ''Z'', ''dx'', ''dy''}"
    by blast
  then show ?thesis
    using run by simp
qed

theorem add_grid_replaces_existing_field:
  "add_grid example_numerics
     [(''X'', Static [[5, 5]]), (''XU'', Static [[0, 90]]), (''YU'', Static [[0, 0]]),
      (''DXT'', Static [[1, 3]]), (''DYT'', Static [[2, 6]])] =
   Inr [(''X'', Static [[0, 0]]), (''XU'', Static [[0, 90]]), (''YU'', Static [[0, 0]]),
        (''DXT'', Static [[1, 3]]), (''DYT'', Static [[2, 6]]),
        (''Y'', Static [[0, 1]]), (''Z'', Static [[- 1, 0]]),
        (''dx'', Static [[- 1, 1]]), (''dy'', Static [[- 1, 1]])]"
  by (simp add: add_grid_def getattr_def example_numerics_def X_def Y_def Z_def delta_def
      assign_like_def shape_of_def Let_def)

subsection \<open>Preparing and loading the slices\<close>

lemma copy_listed_Inr:
  assumes "copy_listed ds acc ks = Inr r"
  shows "set (map fst r) = set (map fst acc) \<union> set ks \<and>
         (distinct (map fst acc) \<longrightarrow> distinct (map fst r))"
  using assms
proof (induction ks arbitrary: acc)
  case Nil
  then show ?case by simp
next
  case (Cons k ks)
  then obtain a where a: "map_of ds k = Some a"
    and rest: "copy_listed ds (setitem k a acc) ks = Inr r"
    by (auto split: option.splits)
  from Cons.IH [OF rest] show ?case
    by (auto simp: keys_setitem distinct_setitem simp del: set_map)
qed

lemma isel_time_fields_names:
  assumes "isel_time_fields t ds = Inr r"
  shows "map fst r = map fst ds"
  using assms
proof (induction t ds arbitrary: r rule: isel_time_fields.induct)
  case (1 t)
  then show ?case by simp
next
  case (2 t k g ps)
  then show ?case by (auto split: sum.splits)
next
  case (3 t k gs ps)
  then show ?case by (auto split: sum.splits)
qed

lemma isel_time_names:
  assumes "isel_time t ds = Inr r"
  shows "map fst r = map fst ds"
  using assms isel_time_fields_names [of t ds r]
  by (simp add: isel_time_def split: if_splits)

lemma prepare_data_ok:
  assumes "prepare_data num remote sc training_time test_time predict_time mask_time store =
             (store', None)"
  shows "\<exists>ds2 ds3 m ds_training ds_test ds_predict.
           copy_listed ds2 [] (conv_var sc @ input_var sc @ target sc) = Inr ds3 \<and>
           isel_time training_time (setitem ''mask'' m ds3) = Inr ds_training \<and>
           isel_time test_time (setitem ''mask'' m ds3) = Inr ds_test \<and>
           isel_time predict_time (setitem ''mask'' m ds3) = Inr ds_predict \<and>
           store' = store (''training_'' @ name sc @ ''.zarr'' \<mapsto> ds_training,
                           ''test_'' @ name sc @ ''.zarr'' \<mapsto> ds_test,
                           ''predict_'' @ name sc @ ''.zarr'' \<mapsto> ds_predict)"
  using assms unfolding prepare_data_def Let_def
  by (simp split: sum.splits) blast

text \<open>
  Claim C9. After a call of \<^verbatim>\<open>prepare_data\<close> that ends without an exception, loading
  the slice of any of the three roles under the scenario's name returns a dataset
  whose data variables are, each once, the names in the scenario's \<^verbatim>\<open>conv_var\<close>,
  \<^verbatim>\<open>input_var\<close> and \<^verbatim>\<open>target\<close> lists and \<^verbatim>\<open>mask\<close>, and no other. The three
  loading functions are the loader at the roles \<^verbatim>\<open>training\<close>, \<^verbatim>\<open>test\<close> and \<^verbatim>\<open>predict\<close>.
\<close>

theorem prepared_slices_round_trip:
  assumes run: "prepare_data num remote sc training_time test_time predict_time mask_time store =
                  (store', None)"
    and role: "role \<in> {''training'', ''test'', ''predict''}"
  shows "(\<exists>ds. loader store' sc role = Inr ds \<and>
               distinct (map fst ds) \<and>
               set (map fst ds) =
                 set (conv_var sc) \<union> set (input_var sc) \<union> set (target sc) \<union> {''mask''}) \<and>
         load_training_data store' sc = loader store' sc ''training'' \<and>
         load_test_data store' sc = loader store' sc ''test'' \<and>
         load_predict_data store' sc = loader store' sc ''predict''"
proof -
  obtain ds2 ds3 m ds_training ds_test ds_predict where
    ds3: "copy_listed ds2 [] (conv_var sc @ input_var sc @ target sc) = Inr ds3"
    and tr: "isel_time training_time (setitem ''mask'' m ds3) = Inr ds_training"
    and te: "isel_time test_time (setitem ''mask'' m ds3) = Inr ds_test"
    and pr: "isel_time predict_time (setitem ''mask'' m ds3) = Inr ds_predict"
    and store': "store' = store (''training_'' @ name sc @ ''.zarr'' \<mapsto> ds_training,
                           ''test_'' @ name sc @ ''.zarr'' \<mapsto> ds_test,
                           ''predict_'' @ name sc @ ''.zarr'' \<mapsto> ds_predict)"
    using prepare_data_ok [OF run] by blast
  let ?ds4 = "setitem ''mask'' m ds3"
  have names3: "set (map fst ds3) = set (conv_var sc) \<union> set (input_var sc) \<union> set (target sc)"
    and dist3: "distinct (map fst ds3)"
    using copy_listed_Inr [OF ds3] by auto
  have names4: "set (map fst ?ds4) =
                  set (conv_var sc) \<union> set (input_var sc) \<union> set (target sc) \<union> {''mask''}"
    using names3 keys_setitem [of "''mask''" m ds3] by auto
  have dist4: "distinct (map fst ?ds4)"
    using dist3 by (rule distinct_setitem)
  have same: "map fst ds_training = map fst ?ds4" "map fst ds_test = map fst ?ds4"
    "map fst ds_predict = map fst ?ds4"
    using isel_time_names [OF tr] isel_time_names [OF te] isel_time_names [OF pr] by simp_all
  have loaded: "loader store' sc ''training'' = Inr ds_training"
    "loader store' sc ''test'' = Inr ds_test"
    "loader store' sc ''predict'' = Inr ds_predict"
    by (simp_all add: loader_def store')
  from role consider "role = ''training''" | "role = ''test''" | "role = ''predict''"
    by blast
  then have "\<exists>ds. loader store' sc role = Inr ds \<and>
               distinct (map fst ds) \<and>
               set (map fst ds) =
                 set (conv_var sc) \<union> set (input_var sc) \<union> set (target sc) \<union> {''mask''}"
  proof cases
    case 1
    then show ?thesis
      using loaded(1) same(1) names4 dist4 by (metis)
  next
    case 2
    then show ?thesis
      using loaded(2) same(2) names4 dist4 by (metis)
  next
    case 3
    then show ?thesis
      using loaded(3) same(3) names4 dist4 by (metis)
  qed
  then show ?thesis
    by (simp add: load_training_data_def load_test_data_def load_predict_data_def)
qed

theorem prepared_slices_round_trip_witness:
  "snd (prepare_data example_numerics (Inr example_remote) sc5 0 1 1 0 Map.empty) = None \<and>
   (case loader (fst (prepare_data example_numerics (Inr example_remote) sc5 0 1 1 0 Map.empty))
           sc5 ''training'' of
      Inl e \<Rightarrow> False
    | Inr ds \<Rightarrow>
        set (map fst ds) = {''SSH'', ''SST'', ''X'', ''TAUX'', ''TAUY'', ''U'', ''V'', ''mask''})"
proof -
  let ?run = "prepare_data example_numerics (Inr example_remote) sc5 0 1 1 0 Map.empty"
  have ok: "snd ?run = None"
    by (simp add: prepare_data_def rename_def rename_key_def example_remote_def
        add_grid_def getattr_def example_numerics_def X_def Y_def Z_def delta_def
        assign_like_def shape_of_def Let_def mask_at_def get_mask_from_def isel_time_array_def
        norm_index_def sc5_def isel_time_def has_time_def)
  then have run: "?run = (fst ?run, None)"
    by (metis prod.collapse)
  from prepared_slices_round_trip [OF run, of "''training''"]
  obtain ds where "loader (fst ?run) sc5 ''training'' = Inr ds"
    and "set (map fst ds) =
           set (conv_var sc5) \<union> set (input_var sc5) \<union> set (target sc5) \<union> {''mask''}"
    by auto
  then show ?thesis
    using ok by (auto simp: sc5_def)
qed

end
